theory Spec2Isabelle
  imports
    Complex_Main
    "HOL-Library.Multiset"
    "HOL-Library.Char_ord"
    "HOL-Library.List_Lexorder"
    "HOL-Library.Product_Lexorder"
begin

section \<open>Subscription\_Recovery.py: the price-hike detector\<close>

text \<open>
  The detector is \<^verbatim>\<open>find_subscription_leeches\<close> (lines 12 to 21 of
  \<^verbatim>\<open>src/Subscription_Recovery/Subscription_Recovery.py\<close>) and the tool wrapped
  around it, \<^verbatim>\<open>analyze_transactions\<close> (lines 24 to 33). Both are a handful of
  pandas calls on a data frame, so the embedding consists of a small model of the
  data frame and of the calls the source makes, followed by the two functions written
  call by call. The pandas behaviour modelled is that of pandas 2: exceptions are
  values of a sum type, \<open>Inl\<close> an exception that is raised.
\<close>

subsection \<open>Scalars\<close>

text \<open>
  A float64 of a numeric column. Finite values are exact rationals (binary rounding
  is not modelled); the three special values of IEEE 754 are constructors of their
  own, \<open>NaN\<close> being what pandas puts where a number is missing.
\<close>

datatype float64 = Fin rat | PInf | NInf | NaN

text \<open>IEEE subtraction \<^verbatim>\<open>x - y\<close>.\<close>

fun fsub :: "float64 \<Rightarrow> float64 \<Rightarrow> float64" where
  "fsub NaN y = NaN"
| "fsub x NaN = NaN"
| "fsub (Fin a) (Fin b) = Fin (a - b)"
| "fsub (Fin a) PInf = NInf"
| "fsub (Fin a) NInf = PInf"
| "fsub PInf PInf = NaN"
| "fsub PInf y = PInf"
| "fsub NInf NInf = NaN"
| "fsub NInf y = NInf"

text \<open>IEEE comparison \<^verbatim>\<open>x > y\<close>: false as soon as one side is \<open>NaN\<close>.\<close>

fun fgt :: "float64 \<Rightarrow> float64 \<Rightarrow> bool" where
  "fgt NaN y = False"
| "fgt x NaN = False"
| "fgt (Fin a) (Fin b) = (b < a)"
| "fgt PInf PInf = False"
| "fgt PInf y = True"
| "fgt NInf y = False"
| "fgt (Fin a) PInf = False"
| "fgt (Fin a) NInf = True"

text \<open>
  One cell of a data frame: a string of an object column, a number, or (after
  \<^verbatim>\<open>pd.to_datetime\<close>) a timestamp in nanoseconds or the missing timestamp \<open>NaT\<close>.
  An empty cell of the file is read as \<open>Num NaN\<close>.
\<close>

datatype cell = Str string | Num float64 | Time int | NaT

definition isna :: "cell \<Rightarrow> bool" where
  "isna c = (c = Num NaN \<or> c = NaT)"

text \<open>
  The exceptions the calls raise, with the argument or message they carry, and
  Python's \<^verbatim>\<open>str(e)\<close>: a \<^verbatim>\<open>KeyError\<close> prints the \<^verbatim>\<open>repr\<close> of its key (the
  key between single quotes, for the keys used here), the others their message.
\<close>

datatype exn = KeyError string | TypeError string | ValueError string | OSError string

fun str_exn :: "exn \<Rightarrow> string" where
  "str_exn (KeyError k) = CHR 0x27 # k @ [CHR 0x27]"
| "str_exn (TypeError m) = m"
| "str_exn (ValueError m) = m"
| "str_exn (OSError m) = m"

definition then_do :: "exn + 'a \<Rightarrow> ('a \<Rightarrow> exn + 'b) \<Rightarrow> exn + 'b" where
  "then_do m f = (case m of Inl e \<Rightarrow> Inl e | Inr x \<Rightarrow> f x)"

text \<open>Evaluating a list of results from left to right stops at the first exception.\<close>

fun sequence :: "(exn + 'a) list \<Rightarrow> exn + 'a list" where
  "sequence [] = Inr []"
| "sequence (x # xs) =
     (case x of
        Inl e \<Rightarrow> Inl e
      | Inr v \<Rightarrow> (case sequence xs of Inl e \<Rightarrow> Inl e | Inr vs \<Rightarrow> Inr (v # vs)))"

subsection \<open>Data frames\<close>

text \<open>
  A data frame is its ordered column names and its rows, each row with its index
  label. A row gives a cell for every column name; a name outside \<open>columns\<close> is
  never read, since every access checks the name first and raises \<^verbatim>\<open>KeyError\<close>.
\<close>

type_synonym row = "string \<Rightarrow> cell"

record frame =
  columns :: "string list"
  rows :: "(nat \<times> row) list"

text \<open>
  \<^verbatim>\<open>pd.read_csv(csv_file)\<close> (line 13). Parsing the bytes of the file is pandas' work
  and is not modelled: a file is given by what \<^verbatim>\<open>read_csv\<close> makes of it, either the
  exception it raises (no such file, no header line, ...) or the header and the rows
  of cells. \<^verbatim>\<open>read_csv\<close> labels the rows \<open>0, 1, 2, ...\<close> in file order.
\<close>

datatype csv_file = Unreadable exn | Table "string list" "row list"

fun read_csv :: "csv_file \<Rightarrow> exn + frame" where
  "read_csv (Unreadable e) = Inl e"
| "read_csv (Table cols rs) = Inr \<lparr>columns = cols, rows = enumerate 0 rs\<rparr>"

text \<open>\<^verbatim>\<open>df[c]\<close> read and \<^verbatim>\<open>df[c] = values\<close> (a new name is appended as last column).\<close>

definition getitem :: "frame \<Rightarrow> string \<Rightarrow> exn + cell list" where
  "getitem df c =
     (if c \<in> set (columns df) then Inr (map (\<lambda>ir. snd ir c) (rows df))
      else Inl (KeyError c))"

definition setitem :: "frame \<Rightarrow> string \<Rightarrow> cell list \<Rightarrow> frame" where
  "setitem df c vs =
     \<lparr>columns = (if c \<in> set (columns df) then columns df else columns df @ [c]),
      rows = map (\<lambda>(ir, v). (fst ir, (snd ir)(c := v))) (zip (rows df) vs)\<rparr>"

text \<open>\<^verbatim>\<open>df[flags]\<close>: the rows whose flag is true, in order.\<close>

definition mask :: "frame \<Rightarrow> bool list \<Rightarrow> frame" where
  "mask df bs = df\<lparr>rows := map fst (filter snd (zip (rows df) bs))\<rparr>"

text \<open>
  \<^verbatim>\<open>pd.to_datetime(column)\<close> (line 14) with its default \<^verbatim>\<open>errors='raise'\<close>. How one
  value is read as a timestamp is pandas' work and a parameter \<open>conv\<close> of the model:
  \<open>conv col c\<close> is the outcome for the value \<open>c\<close> in the column \<open>col\<close> (pandas 2
  infers the format from the column), an exception, the missing timestamp (\<open>None\<close>)
  or a timestamp. The first value that fails aborts the whole call.
\<close>

type_synonym converter = "cell list \<Rightarrow> cell \<Rightarrow> exn + int option"

definition stamp :: "int option \<Rightarrow> cell" where
  "stamp t = (case t of None \<Rightarrow> NaT | Some n \<Rightarrow> Time n)"

definition to_datetime :: "converter \<Rightarrow> cell list \<Rightarrow> exn + cell list" where
  "to_datetime conv col =
     sequence (map (\<lambda>c. then_do (conv col c) (\<lambda>t. Inr (stamp t))) col)"

text \<open>
  \<^verbatim>\<open>df.sort_values(by=keys)\<close> (line 15) with several keys: a stable lexicographic sort,
  ascending, missing values last in each key. \<open>cell_key\<close> is the order of one
  column: numbers by value, strings by code point, timestamps by time, and the
  missing values after all of them (the order between cells of different kinds is
  of no consequence: a column read from a file holds one kind).
\<close>

fun cell_key :: "cell \<Rightarrow> nat \<times> rat \<times> string \<times> int" where
  "cell_key (Num NInf) = (0, 0, [], 0)"
| "cell_key (Num (Fin a)) = (1, a, [], 0)"
| "cell_key (Num PInf) = (2, 0, [], 0)"
| "cell_key (Str s) = (3, 0, s, 0)"
| "cell_key (Time t) = (4, 0, [], t)"
| "cell_key (Num NaN) = (5, 0, [], 0)"
| "cell_key NaT = (5, 0, [], 0)"

definition row_key :: "string list \<Rightarrow> nat \<times> row \<Rightarrow> (nat \<times> rat \<times> string \<times> int) list" where
  "row_key keys ir = map (\<lambda>c. cell_key (snd ir c)) keys"

definition sort_values :: "string list \<Rightarrow> frame \<Rightarrow> exn + frame" where
  "sort_values keys df =
     (case filter (\<lambda>c. c \<notin> set (columns df)) keys of
        c # cs \<Rightarrow> Inl (KeyError c)
      | [] \<Rightarrow> Inr (df\<lparr>rows := sort_key (row_key keys) (rows df)\<rparr>))"

text \<open>
  \<^verbatim>\<open>df.duplicated(c, keep=False)\<close> (line 17): a row is flagged when its value in column
  \<open>c\<close> occurs in more than one row (missing values count as equal to each other).
\<close>

definition duplicated :: "string \<Rightarrow> frame \<Rightarrow> exn + bool list" where
  "duplicated c df =
     (if c \<in> set (columns df)
      then Inr (map (\<lambda>ir. 1 < length (filter (\<lambda>js. snd js c = snd ir c) (rows df))) (rows df))
      else Inl (KeyError c))"

text \<open>
  \<^verbatim>\<open>df.groupby(key)[col].diff()\<close> (line 19). pandas computes it as the column minus
  the column shifted by one within each group: \<open>group_shift\<close> gives, for each row,
  the value of the nearest earlier row with the same key, and \<open>NaN\<close> when there is
  none or when the key is missing (\<^verbatim>\<open>groupby\<close> drops missing keys). The subtraction
  is Python's on the two values: floats subtract, a string raises \<^verbatim>\<open>TypeError\<close>.
\<close>

definition group_shift :: "(cell \<times> cell) list \<Rightarrow> cell list" where
  "group_shift kvs =
     map (\<lambda>n. let k = fst (kvs ! n) in
               if isna k then Num NaN
               else (case filter (\<lambda>kv. fst kv = k) (take n kvs) of
                       [] \<Rightarrow> Num NaN
                     | p # ps \<Rightarrow> snd (last (p # ps))))
         [0..<length kvs]"

fun type_name :: "cell \<Rightarrow> string" where
  "type_name (Str s) = ''str''"
| "type_name (Num x) = ''float''"
| "type_name (Time t) = ''Timestamp''"
| "type_name NaT = ''NaTType''"

fun py_sub :: "cell \<Rightarrow> cell \<Rightarrow> exn + float64" where
  "py_sub (Num a) (Num b) = Inr (fsub a b)"
| "py_sub x y =
     Inl (TypeError (''unsupported operand type(s) for -: '' @
            CHR 0x27 # type_name x @ [CHR 0x27] @ '' and '' @ CHR 0x27 # type_name y @ [CHR 0x27]))"

definition groupby_diff :: "string \<Rightarrow> string \<Rightarrow> frame \<Rightarrow> exn + float64 list" where
  "groupby_diff key col df =
     (if key \<notin> set (columns df) then Inl (KeyError key)
      else if col \<notin> set (columns df) then Inl (KeyError (''Column not found: '' @ col))
      else (let kvs = map (\<lambda>ir. (snd ir key, snd ir col)) (rows df)
            in sequence (map (\<lambda>(v, s). py_sub v s) (zip (map snd kvs) (group_shift kvs)))))"

subsection \<open>The detector\<close>

text \<open>
  \<^verbatim>\<open>find_subscription_leeches\<close>, one line of the model for each call of lines 13 to
  21. The comparison of line 21 is applied to the floats just stored in
  \<^verbatim>\<open>price_change\<close>.
\<close>

definition find_subscription_leeches :: "converter \<Rightarrow> csv_file \<Rightarrow> exn + frame" where
  "find_subscription_leeches conv csv_file =
     then_do (read_csv csv_file) (\<lambda>df.
     then_do (getitem df ''date'') (\<lambda>d.
     then_do (to_datetime conv d) (\<lambda>d.
     then_do (sort_values [''merchant'', ''date''] (setitem df ''date'' d)) (\<lambda>df.
     then_do (duplicated ''merchant'' df) (\<lambda>dup.
     let recurring = mask df dup in
     then_do (groupby_diff ''merchant'' ''amount'' recurring) (\<lambda>change.
     let recurring = setitem recurring ''price_change'' (map Num change) in
     Inr (mask recurring (map (\<lambda>x. fgt x (Fin 0)) change))))))))"

subsection \<open>The tool\<close>

text \<open>
  \<^verbatim>\<open>leeches.empty\<close> and \<^verbatim>\<open>leeches.to_json(orient='records')\<close> (lines 29 and 31): one
  JSON object for each row, with one member for each column in column order. How a
  scalar (a column name, a cell) is written as JSON text is pandas' work and a
  parameter \<open>enc\<close>.
\<close>

definition empty_frame :: "frame \<Rightarrow> bool" where
  "empty_frame df = (rows df = [] \<or> columns df = [])"

fun join :: "string \<Rightarrow> string list \<Rightarrow> string" where
  "join sep [] = []"
| "join sep [x] = x"
| "join sep (x # y # ys) = x @ sep @ join sep (y # ys)"

definition records :: "frame \<Rightarrow> (string \<times> cell) list list" where
  "records df = map (\<lambda>ir. map (\<lambda>c. (c, snd ir c)) (columns df)) (rows df)"

definition to_json :: "(cell \<Rightarrow> string) \<Rightarrow> frame \<Rightarrow> string" where
  "to_json enc df =
     ''['' @ join '',''
              (map (\<lambda>rec. ''{'' @ join '','' (map (\<lambda>(k, v). enc (Str k) @ '':'' @ enc v) rec) @ ''}'')
                   (records df))
     @ '']''"

text \<open>
  \<^verbatim>\<open>analyze_transactions\<close> (lines 25 to 33): the body of the \<^verbatim>\<open>try\<close>, and the
  handler of \<^verbatim>\<open>except Exception as e\<close>, which turns every exception of the body into
  the returned string. The result is \<open>Inr\<close> the string returned; \<open>Inl\<close> would be
  an exception leaving the tool.
\<close>

definition analyze_transactions :: "converter \<Rightarrow> (cell \<Rightarrow> string) \<Rightarrow> csv_file \<Rightarrow> exn + string" where
  "analyze_transactions conv enc csv_path =
     (case then_do (find_subscription_leeches conv csv_path) (\<lambda>leeches.
             if empty_frame leeches then Inr ''No price hikes found.''
             else Inr (to_json enc leeches)) of
        Inl e \<Rightarrow> Inr (''Error: '' @ str_exn e)
      | Inr s \<Rightarrow> Inr s)"

subsection \<open>The stages of the detector\<close>

text \<open>
  The prefixes of \<open>find_subscription_leeches\<close>, named so that the theorems can speak
  of the frame between two lines: the frame after line 14 (dates converted), after
  line 15 (sorted), the frame \<^verbatim>\<open>recurring\<close> of line 17, and the series computed by the
  right-hand side of line 19. \<open>leeches_of\<close> is lines 17 to 21 on a sorted frame and
  \<open>report\<close> is lines 28 to 33 on the outcome of the call of line 28.
\<close>

definition parsed :: "converter \<Rightarrow> csv_file \<Rightarrow> exn + frame" where
  "parsed conv csv_file =
     then_do (read_csv csv_file) (\<lambda>df.
     then_do (getitem df ''date'') (\<lambda>d.
     then_do (to_datetime conv d) (\<lambda>d.
     Inr (setitem df ''date'' d))))"

definition ordered :: "converter \<Rightarrow> csv_file \<Rightarrow> exn + frame" where
  "ordered conv csv_file = then_do (parsed conv csv_file) (sort_values [''merchant'', ''date''])"

definition recurring :: "converter \<Rightarrow> csv_file \<Rightarrow> exn + frame" where
  "recurring conv csv_file =
     then_do (ordered conv csv_file) (\<lambda>df.
     then_do (duplicated ''merchant'' df) (\<lambda>dup. Inr (mask df dup)))"

definition price_changes :: "converter \<Rightarrow> csv_file \<Rightarrow> exn + float64 list" where
  "price_changes conv csv_file =
     then_do (recurring conv csv_file) (groupby_diff ''merchant'' ''amount'')"

definition leeches_of :: "frame \<Rightarrow> exn + frame" where
  "leeches_of df =
     then_do (duplicated ''merchant'' df) (\<lambda>dup.
     let recurring = mask df dup in
     then_do (groupby_diff ''merchant'' ''amount'' recurring) (\<lambda>change.
     let recurring = setitem recurring ''price_change'' (map Num change) in
     Inr (mask recurring (map (\<lambda>x. fgt x (Fin 0)) change))))"

definition report :: "(cell \<Rightarrow> string) \<Rightarrow> exn + frame \<Rightarrow> exn + string" where
  "report enc outcome =
     (case then_do outcome (\<lambda>leeches.
             if empty_frame leeches then Inr ''No price hikes found.''
             else Inr (to_json enc leeches)) of
        Inl e \<Rightarrow> Inr (''Error: '' @ str_exn e)
      | Inr s \<Rightarrow> Inr s)"

text \<open>The merchant partition: the rows of one merchant, in the order of the frame.\<close>

definition merchant_partition :: "frame \<Rightarrow> cell \<Rightarrow> (nat \<times> row) list" where
  "merchant_partition df m = filter (\<lambda>ir. snd ir ''merchant'' = m) (rows df)"

text \<open>The flag of line 17: the merchant of the row has more than one row.\<close>

definition is_recurring :: "frame \<Rightarrow> nat \<times> row \<Rightarrow> bool" where
  "is_recurring df ir = (1 < length (merchant_partition df (snd ir ''merchant'')))"

subsection \<open>Example files\<close>

text \<open>
  A row of a file with the three columns of the tool's tip (line 127), a converter
  that knows three dates, an encoder, and the two scenarios of the specification:
  scenario A (merchant A charged 10, 12, 12 and merchant B charged once) and
  scenario B (merchant C charged 20, 15, 30).
\<close>

definition row_of :: "cell \<Rightarrow> cell \<Rightarrow> cell \<Rightarrow> row" where
  "row_of d m a =
     (\<lambda>c. if c = ''date'' then d else if c = ''merchant'' then m
          else if c = ''amount'' then a else Num NaN)"

definition demo_conv :: converter where
  "demo_conv col c =
     (case c of
        Str s \<Rightarrow>
          (case map_of [(''2024-01-05'', 1), (''2024-02-05'', 2), (''2024-03-05'', 3)] s of
             Some t \<Rightarrow> Inr (Some t)
           | None \<Rightarrow> Inl (ValueError (''Unknown datetime string format, unable to parse: '' @ s)))
      | Num NaN \<Rightarrow> Inr None
      | _ \<Rightarrow> Inl (TypeError ''not convertible to datetime''))"

definition quoted :: "string \<Rightarrow> string" where
  "quoted s = CHR 0x22 # s @ [CHR 0x22]"

definition demo_enc :: "cell \<Rightarrow> string" where
  "demo_enc c =
     (case c of
        Str s \<Rightarrow> quoted s
      | Num (Fin a) \<Rightarrow> (if a = 2 then ''2.0'' else if a = 12 then ''12.0'' else ''0.0'')
      | Time t \<Rightarrow> (if t = 2 then ''1707091200000'' else ''0'')
      | _ \<Rightarrow> ''null'')"

definition scenario_a :: csv_file where
  "scenario_a = Table [''date'', ''merchant'', ''amount'']
     [row_of (Str ''2024-01-05'') (Str ''A'') (Num (Fin 10)),
      row_of (Str ''2024-02-05'') (Str ''A'') (Num (Fin 12)),
      row_of (Str ''2024-03-05'') (Str ''A'') (Num (Fin 12)),
      row_of (Str ''2024-01-05'') (Str ''B'') (Num (Fin 5))]"

definition scenario_b :: csv_file where
  "scenario_b = Table [''date'', ''merchant'', ''amount'']
     [row_of (Str ''2024-01-05'') (Str ''C'') (Num (Fin 20)),
      row_of (Str ''2024-02-05'') (Str ''C'') (Num (Fin 15)),
      row_of (Str ''2024-03-05'') (Str ''C'') (Num (Fin 30))]"

text \<open>
  A file in which rows are out of order and two charges of merchant A fall on one
  date: sorted, A has the rows 3, 2, 4 (charged 1, 3, 4) and B the rows 1, 0
  (charged 5, 7).
\<close>

definition ties_rows :: "row list" where
  "ties_rows =
     [row_of (Str ''2024-02-05'') (Str ''B'') (Num (Fin 7)),
      row_of (Str ''2024-01-05'') (Str ''B'') (Num (Fin 5)),
      row_of (Str ''2024-02-05'') (Str ''A'') (Num (Fin 3)),
      row_of (Str ''2024-01-05'') (Str ''A'') (Num (Fin 1)),
      row_of (Str ''2024-02-05'') (Str ''A'') (Num (Fin 4))]"

definition scenario_ties :: csv_file where
  "scenario_ties = Table [''date'', ''merchant'', ''amount''] ties_rows"

text \<open>
  Files that are not as the tool expects: one without the \<^verbatim>\<open>amount\<close> column, one
  whose only row has a word for an amount, one with two such rows of one merchant,
  one with a date that the converter does not know, and scenario A with a fourth
  column \<^verbatim>\<open>note\<close>.
\<close>

definition no_amount :: csv_file where
  "no_amount = Table [''date'', ''merchant'']
     [row_of (Str ''2024-01-05'') (Str ''A'') (Num NaN),
      row_of (Str ''2024-02-05'') (Str ''A'') (Num NaN)]"

definition bad_amount_once :: csv_file where
  "bad_amount_once = Table [''date'', ''merchant'', ''amount'']
     [row_of (Str ''2024-01-05'') (Str ''A'') (Str ''abc'')]"

definition bad_amount_twice :: csv_file where
  "bad_amount_twice = Table [''date'', ''merchant'', ''amount'']
     [row_of (Str ''2024-01-05'') (Str ''A'') (Str ''abc''),
      row_of (Str ''2024-02-05'') (Str ''A'') (Str ''12'')]"

definition bad_date :: csv_file where
  "bad_date = Table [''date'', ''merchant'', ''amount'']
     [row_of (Str ''2024-01-05'') (Str ''A'') (Num (Fin 10)),
      row_of (Str ''soon'') (Str ''A'') (Num (Fin 12))]"

definition note_rows :: "row list" where
  "note_rows =
     [(row_of (Str ''2024-01-05'') (Str ''A'') (Num (Fin 10)))(''note'' := Str ''x''),
      (row_of (Str ''2024-02-05'') (Str ''A'') (Num (Fin 12)))(''note'' := Str ''y'')]"

definition with_note :: csv_file where
  "with_note = Table [''date'', ''merchant'', ''amount'', ''note''] note_rows"

section \<open>Properties\<close>

subsection \<open>Exceptions and sequencing\<close>

lemma then_do_Inr_iff: "then_do m f = Inr y \<longleftrightarrow> (\<exists>x. m = Inr x \<and> f x = Inr y)"
  by (cases m) (simp_all add: then_do_def)


lemma then_do_Inr [simp]: "then_do (Inr x) f = f x"
  by (simp add: then_do_def)

lemma then_do_Inl [simp]: "then_do (Inl e) f = Inl e"
  by (simp add: then_do_def)

lemma sequence_map_Inr [simp]: "sequence (map Inr vs) = Inr vs"
  by (induction vs) simp_all

lemma sequence_Inr_D: "sequence xs = Inr vs \<Longrightarrow> xs = map Inr vs"
  by (induction xs arbitrary: vs) (auto split: sum.splits)

lemma sequence_Inr_iff: "sequence xs = Inr vs \<longleftrightarrow> xs = map Inr vs"
  using sequence_Inr_D by auto



subsection \<open>Frames: masks, assignments and the stages\<close>

lemma mask_flags: "map fst (filter snd (zip (map h zs) (map q zs))) = map h (filter q zs)"
  by (induction zs) auto

lemma rows_mask_map [simp]: "rows (mask df (map P (rows df))) = filter P (rows df)"
  using mask_flags [where h = "\<lambda>x. x" and q = P and zs = "rows df"] by (simp add: mask_def)

lemma columns_mask [simp]: "columns (mask df bs) = columns df"
  by (simp add: mask_def)

lemma columns_setitem: "columns (setitem df c vs) = (if c \<in> set (columns df) then columns df else columns df @ [c])"
  by (simp add: setitem_def)

lemma rows_setitem: "rows (setitem df c vs) = map (\<lambda>(ir, v). (fst ir, (snd ir)(c := v))) (zip (rows df) vs)"
  by (simp add: setitem_def)

lemma find_subscription_leeches_stages:
  "find_subscription_leeches conv f = then_do (ordered conv f) leeches_of"
  by (cases f) (auto simp: find_subscription_leeches_def ordered_def parsed_def leeches_of_def then_do_def split: sum.splits)

lemma analyze_transactions_report:
  "analyze_transactions conv enc f = report enc (find_subscription_leeches conv f)"
  by (simp add: analyze_transactions_def report_def)

lemma to_datetime_length: "to_datetime conv col = Inr ds \<Longrightarrow> length ds = length col"
  unfolding to_datetime_def sequence_Inr_iff
  by (metis length_map)

lemma map_zip_fst: "length xs = length ys \<Longrightarrow> map (\<lambda>p. f (fst p)) (zip xs ys) = map f xs"
  by (induction xs ys rule: list_induct2) simp_all

lemma map_zip_snd: "length xs = length ys \<Longrightarrow> map (\<lambda>p. f (snd p)) (zip xs ys) = map f ys"
  by (induction xs ys rule: list_induct2) simp_all

lemma map_fst_setitem:
  "length vs = length (rows df) \<Longrightarrow> map fst (rows (setitem df c vs)) = map fst (rows df)"
  using map_zip_fst [where f = fst and xs = "rows df" and ys = vs]
  by (simp add: rows_setitem case_prod_beta comp_def)

lemma parsed_Inr:
  assumes "parsed conv f = Inr df"
  obtains cols raw ds where "f = Table cols raw" "''date'' \<in> set cols"
    "to_datetime conv (map (\<lambda>r. r ''date'') raw) = Inr ds"
    "df = setitem \<lparr>columns = cols, rows = enumerate 0 raw\<rparr> ''date'' ds"
proof (cases f)
  case (Unreadable e)
  with assms show ?thesis by (simp add: parsed_def)
next
  case (Table cols raw)
  with assms have d: "''date'' \<in> set cols"
    by (auto simp: parsed_def getitem_def split: if_splits)
  with assms Table obtain ds where
    "to_datetime conv (map (\<lambda>ir. snd ir ''date'') (enumerate 0 raw)) = Inr ds"
    "df = setitem \<lparr>columns = cols, rows = enumerate 0 raw\<rparr> ''date'' ds"
    by (auto simp: parsed_def getitem_def then_do_Inr_iff)
  moreover have "map (\<lambda>ir. snd ir ''date'') (enumerate 0 raw) = map (\<lambda>r. r ''date'') raw"
    using map_zip_snd [where f = "\<lambda>r. r ''date''" and xs = "[0..<length raw]" and ys = raw]
    by (simp add: enumerate_eq_zip)
  ultimately show ?thesis using that Table d by simp
qed

lemma parsed_index:
  assumes "parsed conv f = Inr df"
  shows "map fst (rows df) = [0..<length (rows df)]"
proof -
  from assms obtain cols raw ds where f: "f = Table cols raw"
    and ds: "to_datetime conv (map (\<lambda>r. r ''date'') raw) = Inr ds"
    and df: "df = setitem \<lparr>columns = cols, rows = enumerate 0 raw\<rparr> ''date'' ds"
    by (rule parsed_Inr)
  from ds have len: "length ds = length raw"
    by (simp add: to_datetime_length)
  then have "map fst (rows df) = map fst (enumerate 0 raw)"
    unfolding df by (simp add: map_fst_setitem)
  moreover have "length (rows df) = length raw"
    unfolding df by (simp add: rows_setitem len)
  ultimately show ?thesis by (simp add: enumerate_eq_zip)
qed

subsection \<open>Line 15: the sort\<close>

text \<open>
  A stable sort of rows whose index labels increase leaves rows of equal keys in
  ascending order of label: the frame of line 15 is sorted by merchant, date and
  label.
\<close>

lemma cell_key_order:
  "cell_key (Str a) \<le> cell_key (Str b) \<longleftrightarrow> a \<le> b"
  "cell_key (Time s) \<le> cell_key (Time t) \<longleftrightarrow> s \<le> t"
  "cell_key (Num (Fin x)) \<le> cell_key (Num (Fin y)) \<longleftrightarrow> x \<le> y"
  "cell_key (Str a) < cell_key (Num NaN)"
  "cell_key (Time s) < cell_key NaT"
  by (auto simp: less_le)

lemma insort_key_refines:
  assumes "sorted (map g ys)"
    and "\<forall>y\<in>set ys. f y < f x \<longrightarrow> g y \<le> g x"
    and "\<forall>y\<in>set ys. f x \<le> f y \<longrightarrow> g x \<le> g y"
  shows "sorted (map g (insort_key f x ys))"
  using assms
proof (induction ys)
  case Nil
  then show ?case by simp
next
  case (Cons y ys)
  show ?case
  proof (cases "f x \<le> f y")
    case True
    with Cons.prems have "g x \<le> g y" by simp
    with Cons.prems(1) True show ?thesis by auto
  next
    case False
    with Cons.prems have "g y \<le> g x" by simp
    moreover have "sorted (map g (insort_key f x ys))"
      using Cons by simp
    ultimately show ?thesis using False Cons.prems(1) by (auto simp: set_insort_key)
  qed
qed

lemma sort_key_ties_by_index:
  assumes "sorted_wrt (<) (map fst xs)"
  shows "sorted (map (\<lambda>ir. (f ir, fst ir)) (sort_key f xs))"
  using assms
proof (induction xs)
  case Nil
  then show ?case by simp
next
  case (Cons x xs)
  then have "sorted (map (\<lambda>ir. (f ir, fst ir)) (sort_key f xs))" by simp
  moreover from Cons.prems have lt: "\<forall>y\<in>set xs. fst x < fst y" by simp
  have "\<forall>y\<in>set (sort_key f xs). f y < f x \<longrightarrow> (f y, fst y) \<le> (f x, fst x)"
    by simp
  moreover have "\<forall>y\<in>set (sort_key f xs). f x \<le> f y \<longrightarrow> (f x, fst x) \<le> (f y, fst y)"
    using lt by (simp add: less_imp_le)
  ultimately have "sorted (map (\<lambda>ir. (f ir, fst ir)) (insort_key f x (sort_key f xs)))"
    by (rule insort_key_refines)
  then show ?case by simp
qed

lemma sort_values_Inr:
  "sort_values keys df = Inr S \<longleftrightarrow>
     set keys \<subseteq> set (columns df) \<and> S = df\<lparr>rows := sort_key (row_key keys) (rows df)\<rparr>"
proof -
  have "filter (\<lambda>c. c \<notin> set (columns df)) keys = [] \<longleftrightarrow> set keys \<subseteq> set (columns df)"
    by (auto simp: filter_empty_conv)
  then show ?thesis
    by (cases "filter (\<lambda>c. c \<notin> set (columns df)) keys") (auto simp: sort_values_def)
qed

lemma ordered_Inr:
  assumes "ordered conv f = Inr S"
  obtains df where "parsed conv f = Inr df" "''merchant'' \<in> set (columns df)"
    "S = df\<lparr>rows := sort_key (row_key [''merchant'', ''date'']) (rows df)\<rparr>"
  using assms by (auto simp: ordered_def then_do_Inr_iff sort_values_Inr)

lemma ordered_sorted:
  assumes "ordered conv f = Inr S"
  shows "sorted (map (\<lambda>ir. (row_key [''merchant'', ''date''] ir, fst ir)) (rows S))"
proof -
  from assms obtain df where df: "parsed conv f = Inr df"
    and S: "S = df\<lparr>rows := sort_key (row_key [''merchant'', ''date'']) (rows df)\<rparr>"
    by (rule ordered_Inr)
  from df have "sorted_wrt (<) (map fst (rows df))"
    by (simp add: parsed_index)
  then show ?thesis
    unfolding S by (simp add: sort_key_ties_by_index)
qed

lemma ordered_distinct:
  assumes "ordered conv f = Inr S"
  shows "distinct (map fst (rows S))"
proof -
  from assms obtain df where df: "parsed conv f = Inr df"
    and S: "S = df\<lparr>rows := sort_key (row_key [''merchant'', ''date'']) (rows df)\<rparr>"
    by (rule ordered_Inr)
  have "mset (map fst (rows S)) = mset (map fst (rows df))"
    unfolding S by simp
  moreover from df have "distinct (map fst (rows df))"
    by (simp add: parsed_index)
  ultimately show ?thesis
    by (metis mset_eq_imp_distinct_iff)
qed


subsection \<open>Lines 17 to 21: recurring merchants and their price changes\<close>

lemma duplicated_Inr:
  "duplicated ''merchant'' df = Inr dup \<longleftrightarrow>
     ''merchant'' \<in> set (columns df) \<and> dup = map (is_recurring df) (rows df)"
  by (auto simp: duplicated_def is_recurring_def merchant_partition_def)

lemma recurring_Inr:
  assumes "recurring conv f = Inr R"
  obtains S where "ordered conv f = Inr S" "R = S\<lparr>rows := filter (is_recurring S) (rows S)\<rparr>"
  using assms
  by (auto simp: recurring_def then_do_Inr_iff duplicated_Inr mask_def mask_flags [where h = "\<lambda>x. x", simplified])

lemma rows_hikes:
  assumes "length ch = length (rows R)"
  shows "rows (mask (setitem R c (map Num ch)) (map Q ch)) =
         map (\<lambda>p. (fst (fst p), (snd (fst p))(c := Num (snd p)))) (filter (\<lambda>p. Q (snd p)) (zip (rows R) ch))"
proof -
  have "rows (setitem R c (map Num ch)) =
        map (\<lambda>p. (fst (fst p), (snd (fst p))(c := Num (snd p)))) (zip (rows R) ch)"
    by (simp add: rows_setitem zip_map2 case_prod_beta)
  moreover have "map Q ch = map (\<lambda>p. Q (snd p)) (zip (rows R) ch)"
    using map_zip_snd [where f = Q and xs = "rows R" and ys = ch] assms
    by simp
  ultimately show ?thesis
    by (simp add: mask_def mask_flags)
qed

lemma groupby_diff_Inr:
  assumes "groupby_diff key col df = Inr ch"
  shows "key \<in> set (columns df)" "col \<in> set (columns df)" "length ch = length (rows df)"
    "\<And>j. j < length (rows df) \<Longrightarrow>
       py_sub (snd (rows df ! j) col)
              (group_shift (map (\<lambda>ir. (snd ir key, snd ir col)) (rows df)) ! j) = Inr (ch ! j)"
proof -
  let ?kvs = "map (\<lambda>ir. (snd ir key, snd ir col)) (rows df)"
  from assms show k: "key \<in> set (columns df)" and c: "col \<in> set (columns df)"
    by (auto simp: groupby_diff_def split: if_splits)
  with assms have eq: "map (\<lambda>(v, s). py_sub v s) (zip (map snd ?kvs) (group_shift ?kvs)) = map Inr ch"
    by (simp add: groupby_diff_def sequence_Inr_iff)
  have len: "length (group_shift ?kvs) = length (rows df)"
    by (simp add: group_shift_def)
  from eq have "length (map (\<lambda>(v, s). py_sub v s) (zip (map snd ?kvs) (group_shift ?kvs))) = length (map Inr ch)"
    by simp
  with len show l: "length ch = length (rows df)" by simp
  fix j assume j: "j < length (rows df)"
  from eq have "map (\<lambda>(v, s). py_sub v s) (zip (map snd ?kvs) (group_shift ?kvs)) ! j = map Inr ch ! j"
    by simp
  with j len l show "py_sub (snd (rows df ! j) col) (group_shift ?kvs ! j) = Inr (ch ! j)"
    by simp
qed

lemma py_sub_Inr: "py_sub x y = Inr d \<longleftrightarrow> (\<exists>a b. x = Num a \<and> y = Num b \<and> d = fsub a b)"
  by (cases "(x, y)" rule: py_sub.cases) auto

lemma fgt_fsub_NaN [simp]: "\<not> fgt (fsub a NaN) z"
  by (cases a) simp_all

lemma fgt_NaN [simp]: "\<not> fgt NaN z"
  by simp

lemma filter_around_nth:
  assumes "n < length xs" "P (xs ! n)"
  shows "filter P xs = filter P (take n xs) @ xs ! n # filter P (drop (Suc n) xs)"
proof -
  have "xs = take n xs @ xs ! n # drop (Suc n) xs"
    using assms(1) by (rule id_take_nth_drop)
  then have "filter P xs = filter P (take n xs @ xs ! n # drop (Suc n) xs)"
    by simp
  with assms(2) show ?thesis by simp
qed

lemma group_shift_nth:
  assumes "n < length kvs"
  shows "group_shift kvs ! n =
     (if isna (fst (kvs ! n)) then Num NaN
      else (case filter (\<lambda>kv. fst kv = fst (kvs ! n)) (take n kvs) of
              [] \<Rightarrow> Num NaN
            | p # ps \<Rightarrow> snd (last (p # ps))))"
  using assms by (simp add: group_shift_def Let_def)

lemma group_shift_rows:
  assumes "j < length rs"
  shows "group_shift (map (\<lambda>ir::nat \<times> row. (snd ir key, snd ir col)) rs) ! j =
     (if isna (snd (rs ! j) key) \<or> filter (\<lambda>ir. snd ir key = snd (rs ! j) key) (take j rs) = []
      then Num NaN
      else snd (last (filter (\<lambda>ir. snd ir key = snd (rs ! j) key) (take j rs))) col)"
proof -
  let ?g = "\<lambda>ir::nat \<times> row. (snd ir key, snd ir col)"
  let ?m = "snd (rs ! j) key"
  let ?before = "filter (\<lambda>ir. snd ir key = ?m) (take j rs)"
  have f: "filter (\<lambda>kv. fst kv = fst (map ?g rs ! j)) (take j (map ?g rs)) = map ?g ?before"
    using assms by (simp add: take_map filter_map comp_def)
  show ?thesis
  proof (cases ?before)
    case Nil
    with f assms show ?thesis by (simp add: group_shift_nth)
  next
    case (Cons p ps)
    then have "map ?g ?before \<noteq> []" by simp
    then obtain q qs where q: "map ?g ?before = q # qs" by (cases "map ?g ?before") auto
    have "snd (last (map ?g ?before)) = snd (last ?before) col"
      using Cons by (simp add: last_map)
    with q f assms Cons show ?thesis by (simp add: group_shift_nth)
  qed
qed

lemma mask_map: "mask df (map P (rows df)) = df\<lparr>rows := filter P (rows df)\<rparr>"
  using mask_flags [where h = "\<lambda>x. x" and q = P and zs = "rows df"] by (simp add: mask_def)

lemma leeches_of_Inr:
  assumes "leeches_of S = Inr out"
  obtains ch where
    "groupby_diff ''merchant'' ''amount'' (S\<lparr>rows := filter (is_recurring S) (rows S)\<rparr>) = Inr ch"
    "length ch = length (filter (is_recurring S) (rows S))"
    "rows out = map (\<lambda>p. (fst (fst p), (snd (fst p))(''price_change'' := Num (snd p))))
                   (filter (\<lambda>p. fgt (snd p) (Fin 0)) (zip (filter (is_recurring S) (rows S)) ch))"
    "columns out = (if ''price_change'' \<in> set (columns S) then columns S else columns S @ [''price_change''])"
proof -
  let ?R = "S\<lparr>rows := filter (is_recurring S) (rows S)\<rparr>"
  from assms obtain ch where ch: "groupby_diff ''merchant'' ''amount'' ?R = Inr ch"
    and out: "out = mask (setitem ?R ''price_change'' (map Num ch)) (map (\<lambda>x. fgt x (Fin 0)) ch)"
    by (auto simp: leeches_of_def then_do_Inr_iff duplicated_Inr mask_map Let_def)
  from ch have len: "length ch = length (rows ?R)"
    by (rule groupby_diff_Inr)
  have "rows out = map (\<lambda>p. (fst (fst p), (snd (fst p))(''price_change'' := Num (snd p))))
                   (filter (\<lambda>p. fgt (snd p) (Fin 0)) (zip (rows ?R) ch))"
    unfolding out using len by (rule rows_hikes)
  moreover have "columns out = (if ''price_change'' \<in> set (columns S) then columns S else columns S @ [''price_change''])"
    unfolding out by (simp add: columns_setitem)
  ultimately show ?thesis using that ch len by simp
qed

lemma partition_of_recurring:
  assumes "ir \<in> set (filter (is_recurring S) (rows S))"
  shows "filter (\<lambda>js. snd js ''merchant'' = snd ir ''merchant'') (filter (is_recurring S) (rows S)) =
         merchant_partition S (snd ir ''merchant'')"
proof -
  from assms have "is_recurring S ir" by simp
  then have "\<And>js. snd js ''merchant'' = snd ir ''merchant'' \<Longrightarrow> is_recurring S js"
    by (simp add: is_recurring_def)
  then show ?thesis
    unfolding merchant_partition_def filter_filter
    by (intro filter_cong) auto
qed

lemma position_in_filter:
  assumes "j < length xs" "P (xs ! j)"
  shows "length (filter P (take j xs)) < length (filter P xs)"
    and "filter P xs ! length (filter P (take j xs)) = xs ! j"
    and "filter P (take j xs) \<noteq> [] \<Longrightarrow>
         filter P xs ! (length (filter P (take j xs)) - 1) = last (filter P (take j xs))"
proof -
  let ?A = "filter P (take j xs)"
  let ?B = "filter P (drop (Suc j) xs)"
  have eq: "filter P xs = ?A @ xs ! j # ?B"
    using assms by (rule filter_around_nth)
  have "length (filter P xs) = length (?A @ xs ! j # ?B)"
    by (simp only: eq [symmetric])
  then show "length ?A < length (filter P xs)"
    by simp
  have nth: "filter P xs ! n = (?A @ xs ! j # ?B) ! n" for n
    by (simp only: eq [symmetric])
  show "filter P xs ! length ?A = xs ! j"
    by (simp add: nth)
  assume ne: "?A \<noteq> []"
  then have "length ?A - 1 < length ?A" by simp
  then have "filter P xs ! (length ?A - 1) = ?A ! (length ?A - 1)"
    by (simp add: nth nth_append)
  with ne show "filter P xs ! (length ?A - 1) = last ?A"
    by (simp add: last_conv_nth)
qed

lemma sorted_map_coarser:
  assumes "sorted (map g xs)"
    and "\<And>x y. x \<in> set xs \<Longrightarrow> y \<in> set xs \<Longrightarrow> g x \<le> g y \<Longrightarrow> h x \<le> h y"
  shows "sorted (map h xs)"
proof -
  from assms(1) have "sorted_wrt (\<lambda>x y. g x \<le> g y) xs"
    by (simp add: sorted_map)
  then have "sorted_wrt (\<lambda>x y. h x \<le> h y) xs"
    by (rule sorted_wrt_mono_rel [rotated]) (rule assms(2))
  then show ?thesis
    by (simp add: sorted_map)
qed



text \<open>Where a row of the frame of line 17 stands in its merchant partition, and what line 19 computes for it.\<close>

lemma change_of_recurring_row:
  assumes ch: "groupby_diff ''merchant'' ''amount'' (S\<lparr>rows := filter (is_recurring S) (rows S)\<rparr>) = Inr ch"
    and j: "j < length (filter (is_recurring S) (rows S))"
  defines "R \<equiv> filter (is_recurring S) (rows S)"
  defines "m \<equiv> snd (R ! j) ''merchant''"
  defines "k \<equiv> length (filter (\<lambda>js. snd js ''merchant'' = m) (take j R))"
  shows "k < length (merchant_partition S m)"
    and "merchant_partition S m ! k = R ! j"
    and "\<exists>a. snd (R ! j) ''amount'' = Num a \<and>
           (if isna m \<or> k = 0 then ch ! j = NaN
            else \<exists>b. snd (merchant_partition S m ! (k - 1)) ''amount'' = Num b \<and> ch ! j = fsub a b)"
proof -
  let ?P = "\<lambda>js::nat \<times> row. snd js ''merchant'' = m"
  from j have mem: "R ! j \<in> set (filter (is_recurring S) (rows S))"
    unfolding R_def by (rule nth_mem)
  have part: "filter ?P R = merchant_partition S m"
    unfolding R_def m_def using mem [unfolded R_def] by (rule partition_of_recurring)
  have jR: "j < length R" and Pj: "?P (R ! j)"
    using j by (simp_all add: R_def m_def)
  from position_in_filter(1) [OF jR, of ?P] Pj show "k < length (merchant_partition S m)"
    by (simp add: k_def part)
  from position_in_filter(2) [OF jR, of ?P] Pj show "merchant_partition S m ! k = R ! j"
    by (simp add: k_def part)
  have prev: "merchant_partition S m ! (k - 1) = last (filter ?P (take j R))" if "k \<noteq> 0"
    using position_in_filter(3) [OF jR, of ?P] Pj that by (simp add: k_def part)
  from groupby_diff_Inr(4) [OF ch] j
  have sub: "py_sub (snd (R ! j) ''amount'')
               (group_shift (map (\<lambda>ir. (snd ir ''merchant'', snd ir ''amount'')) R) ! j) = Inr (ch ! j)"
    by (simp add: R_def)
  then obtain a b where a: "snd (R ! j) ''amount'' = Num a"
    and b: "group_shift (map (\<lambda>ir. (snd ir ''merchant'', snd ir ''amount'')) R) ! j = Num b"
    and d: "ch ! j = fsub a b"
    by (auto simp: py_sub_Inr)
  have shift: "group_shift (map (\<lambda>ir. (snd ir ''merchant'', snd ir ''amount'')) R) ! j =
     (if isna m \<or> k = 0 then Num NaN else snd (last (filter ?P (take j R))) ''amount'')"
    using group_shift_rows [OF jR, of "''merchant''" "''amount''"] by (simp add: m_def k_def)
  show "\<exists>a. snd (R ! j) ''amount'' = Num a \<and>
           (if isna m \<or> k = 0 then ch ! j = NaN
            else \<exists>b. snd (merchant_partition S m ! (k - 1)) ''amount'' = Num b \<and> ch ! j = fsub a b)"
  proof (cases "isna m \<or> k = 0")
    case True
    with shift b have "b = NaN" by simp
    with d have "ch ! j = NaN" by (cases a) simp_all
    with a True show ?thesis by simp
  next
    case False
    with shift b prev have "snd (merchant_partition S m ! (k - 1)) ''amount'' = Num b" by simp
    with a d False show ?thesis by simp
  qed
qed

lemma hike_origin:
  assumes S: "ordered conv f = Inr S"
    and out: "find_subscription_leeches conv f = Inr out"
    and ir: "(i, r) \<in> set (rows out)"
  obtains ch j where
    "groupby_diff ''merchant'' ''amount'' (S\<lparr>rows := filter (is_recurring S) (rows S)\<rparr>) = Inr ch"
    "j < length (filter (is_recurring S) (rows S))"
    "fst (filter (is_recurring S) (rows S) ! j) = i"
    "r = (snd (filter (is_recurring S) (rows S) ! j))(''price_change'' := Num (ch ! j))"
    "fgt (ch ! j) (Fin 0)"
proof -
  let ?R = "filter (is_recurring S) (rows S)"
  from S out have "leeches_of S = Inr out"
    by (simp add: find_subscription_leeches_stages)
  then obtain ch where ch: "groupby_diff ''merchant'' ''amount'' (S\<lparr>rows := ?R\<rparr>) = Inr ch"
    and len: "length ch = length ?R"
    and rows: "rows out = map (\<lambda>p. (fst (fst p), (snd (fst p))(''price_change'' := Num (snd p))))
                   (filter (\<lambda>p. fgt (snd p) (Fin 0)) (zip ?R ch))"
    by (rule leeches_of_Inr)
  from ir rows obtain p where p: "p \<in> set (zip ?R ch)" "fgt (snd p) (Fin 0)"
    and eq: "(i, r) = (fst (fst p), (snd (fst p))(''price_change'' := Num (snd p)))"
    by auto
  from p(1) obtain j where j: "j < length ?R" "p = (?R ! j, ch ! j)"
    using len by (auto simp: in_set_zip)
  from j eq p(2) have "fst (?R ! j) = i" "r = (snd (?R ! j))(''price_change'' := Num (ch ! j))"
    "fgt (ch ! j) (Fin 0)"
    by simp_all
  with ch j(1) show ?thesis by (rule that)
qed


subsection \<open>First records and single records\<close>

lemma recurring_price_changes:
  assumes "ordered conv f = Inr S" "leeches_of S = Inr out"
  obtains ch where
    "recurring conv f = Inr (S\<lparr>rows := filter (is_recurring S) (rows S)\<rparr>)"
    "price_changes conv f = Inr ch"
    "groupby_diff ''merchant'' ''amount'' (S\<lparr>rows := filter (is_recurring S) (rows S)\<rparr>) = Inr ch"
proof -
  from assms(2) obtain ch where
    ch: "groupby_diff ''merchant'' ''amount'' (S\<lparr>rows := filter (is_recurring S) (rows S)\<rparr>) = Inr ch"
    by (rule leeches_of_Inr)
  then have "''merchant'' \<in> set (columns S)"
    using groupby_diff_Inr(1) [OF ch] by simp
  then have "duplicated ''merchant'' S = Inr (map (is_recurring S) (rows S))"
    by (simp add: duplicated_Inr)
  with assms(1) have R: "recurring conv f = Inr (S\<lparr>rows := filter (is_recurring S) (rows S)\<rparr>)"
    by (simp add: recurring_def mask_map)
  with ch have "price_changes conv f = Inr ch"
    by (simp add: price_changes_def)
  from R this ch show ?thesis by (rule that)
qed

lemma first_of_merchant_no_change:
  assumes ch: "groupby_diff ''merchant'' ''amount'' (S\<lparr>rows := filter (is_recurring S) (rows S)\<rparr>) = Inr ch"
    and j: "j < length (filter (is_recurring S) (rows S))"
    and first: "\<forall>i<j. snd (filter (is_recurring S) (rows S) ! i) ''merchant'' \<noteq>
                     snd (filter (is_recurring S) (rows S) ! j) ''merchant''"
  shows "ch ! j = NaN"
proof -
  let ?R = "filter (is_recurring S) (rows S)"
  let ?m = "snd (?R ! j) ''merchant''"
  have "snd x ''merchant'' \<noteq> ?m" if "x \<in> set (take j ?R)" for x
  proof -
    from that obtain i where "i < length (take j ?R)" "take j ?R ! i = x"
      by (auto simp: in_set_conv_nth)
    with j have "i < j" "?R ! i = x" by simp_all
    with first show ?thesis by blast
  qed
  then have "filter (\<lambda>js. snd js ''merchant'' = ?m) (take j ?R) = []"
    by (simp add: filter_empty_conv)
  then have "length (filter (\<lambda>js. snd js ''merchant'' = ?m) (take j ?R)) = 0"
    by simp
  with change_of_recurring_row(3) [OF ch j] show ?thesis
    by auto
qed

lemma no_change_not_reported:
  assumes S: "ordered conv f = Inr S"
    and out: "find_subscription_leeches conv f = Inr out"
    and ch: "groupby_diff ''merchant'' ''amount'' (S\<lparr>rows := filter (is_recurring S) (rows S)\<rparr>) = Inr ch"
    and j: "j < length (filter (is_recurring S) (rows S))"
    and nan: "\<not> fgt (ch ! j) (Fin 0)"
  shows "fst (filter (is_recurring S) (rows S) ! j) \<notin> fst ` set (rows out)"
proof
  let ?R = "filter (is_recurring S) (rows S)"
  assume "fst (?R ! j) \<in> fst ` set (rows out)"
  then obtain r where "(fst (?R ! j), r) \<in> set (rows out)"
    by auto
  with S out obtain ch' j' where ch': "groupby_diff ''merchant'' ''amount'' (S\<lparr>rows := ?R\<rparr>) = Inr ch'"
    and j': "j' < length ?R" and same: "fst (?R ! j') = fst (?R ! j)"
    and pos: "fgt (ch' ! j') (Fin 0)"
    by (rule hike_origin)
  from ch ch' have "ch' = ch" by simp
  have "distinct (map fst ?R)"
    using ordered_distinct [OF S] by (rule distinct_map_filter)
  moreover from same j j' have "map fst ?R ! j' = map fst ?R ! j" by simp
  moreover from j j' have "j' < length (map fst ?R)" "j < length (map fst ?R)" by simp_all
  ultimately have "j' = j"
    by (simp only: nth_eq_iff_index_eq)
  with pos nan \<open>ch' = ch\<close> show False by simp
qed

lemma filter_zip_fst:
  "length xs = length ys \<Longrightarrow> length (filter (\<lambda>p. P (fst p)) (zip xs ys)) = length (filter P xs)"
  by (induction xs ys rule: list_induct2) simp_all

lemma partition_length_setitem:
  assumes "length vs = length (rows df)" "c \<noteq> ''merchant''"
  shows "length (merchant_partition (setitem df c vs) m) = length (merchant_partition df m)"
proof -
  have "length (merchant_partition (setitem df c vs) m) =
        length (filter (\<lambda>p. snd (fst p) ''merchant'' = m) (zip (rows df) vs))"
    using assms(2) by (simp add: merchant_partition_def rows_setitem filter_map comp_def case_prod_beta)
  also have "\<dots> = length (merchant_partition df m)"
    unfolding merchant_partition_def
    using filter_zip_fst [where P = "\<lambda>ir. snd ir ''merchant'' = m" and xs = "rows df" and ys = vs] assms(1)
    by simp
  finally show ?thesis .
qed

lemma partition_length_ordered:
  assumes df0: "read_csv f = Inr df0" and S: "ordered conv f = Inr S"
  shows "length (merchant_partition S m) = length (merchant_partition df0 m)"
proof -
  from S obtain df where df: "parsed conv f = Inr df"
    and S': "S = df\<lparr>rows := sort_key (row_key [''merchant'', ''date'']) (rows df)\<rparr>"
    by (rule ordered_Inr)
  from df obtain cols raw ds where f: "f = Table cols raw"
    and ds: "to_datetime conv (map (\<lambda>r. r ''date'') raw) = Inr ds"
    and df': "df = setitem \<lparr>columns = cols, rows = enumerate 0 raw\<rparr> ''date'' ds"
    by (rule parsed_Inr)
  from df0 f have df0': "df0 = \<lparr>columns = cols, rows = enumerate 0 raw\<rparr>" by simp
  from ds have "length ds = length (rows df0)"
    by (simp add: to_datetime_length df0')
  then have "length (merchant_partition df m) = length (merchant_partition df0 m)"
    unfolding df' df0' [symmetric] by (rule partition_length_setitem) simp
  moreover have "length (merchant_partition S m) = length (merchant_partition df m)"
    unfolding S' by (simp add: merchant_partition_def filter_sort)
  ultimately show ?thesis by simp
qed

lemma first_of_partition_position:
  assumes "1 < length (merchant_partition S m)"
  obtains j where "j < length (filter (is_recurring S) (rows S))"
    "filter (is_recurring S) (rows S) ! j = hd (merchant_partition S m)"
    "\<forall>i<j. snd (filter (is_recurring S) (rows S) ! i) ''merchant'' \<noteq>
            snd (filter (is_recurring S) (rows S) ! j) ''merchant''"
proof -
  let ?R = "filter (is_recurring S) (rows S)"
  let ?P = "\<lambda>js::nat \<times> row. snd js ''merchant'' = m"
  have "\<And>js. ?P js \<Longrightarrow> is_recurring S js"
    using assms by (simp add: is_recurring_def)
  then have part: "filter ?P ?R = merchant_partition S m"
    unfolding merchant_partition_def filter_filter by (intro filter_cong) auto
  from assms obtain y ys where y: "merchant_partition S m = y # ys"
    by (cases "merchant_partition S m") auto
  with part have "filter ?P ?R = y # ys" by simp
  then obtain us vs where R: "?R = us @ y # vs" and us: "\<forall>u\<in>set us. \<not> ?P u" and Py: "?P y"
    by (auto simp: filter_eq_Cons_iff)
  have at: "?R ! length us = y"
    by (simp only: R nth_append_length)
  have "length us < length ?R"
    by (simp only: R) simp
  moreover have "?R ! length us = hd (merchant_partition S m)"
    using at y by simp
  moreover have "\<forall>i<length us. snd (?R ! i) ''merchant'' \<noteq> snd (?R ! length us) ''merchant''"
  proof (intro allI impI)
    fix i assume i: "i < length us"
    then have "?R ! i = us ! i" by (simp only: R nth_append) simp
    moreover from i have "us ! i \<in> set us" by simp
    ultimately have "\<not> ?P (?R ! i)" using us by simp
    with at Py show "snd (?R ! i) ''merchant'' \<noteq> snd (?R ! length us) ''merchant''"
      by simp
  qed
  ultimately show ?thesis by (rule that)
qed

text \<open>
  C9 (as amended). The delta of a first record is not an absent value but the float
  \<open>NaN\<close>, and it is the comparison of line 21 that drops it.
\<close>

theorem first_record_delta_is_nan:
  assumes R: "recurring conv f = Inr R"
    and ch: "price_changes conv f = Inr ch"
    and j: "j < length (rows R)"
    and first: "\<forall>i<j. snd (rows R ! i) ''merchant'' \<noteq> snd (rows R ! j) ''merchant''"
  shows "ch ! j = NaN
       \<and> map (\<lambda>x. fgt x (Fin 0)) ch ! j = fgt NaN (Fin 0)
       \<and> \<not> fgt NaN (Fin 0)
       \<and> (\<forall>out. find_subscription_leeches conv f = Inr out \<longrightarrow> fst (rows R ! j) \<notin> fst ` set (rows out))"
proof -
  from R obtain S where S: "ordered conv f = Inr S"
    and R': "R = S\<lparr>rows := filter (is_recurring S) (rows S)\<rparr>"
    by (rule recurring_Inr)
  let ?R = "filter (is_recurring S) (rows S)"
  from R ch have gd: "groupby_diff ''merchant'' ''amount'' (S\<lparr>rows := ?R\<rparr>) = Inr ch"
    by (simp add: price_changes_def R')
  from j have j': "j < length ?R" by (simp add: R')
  from first have first': "\<forall>i<j. snd (?R ! i) ''merchant'' \<noteq> snd (?R ! j) ''merchant''"
    by (simp add: R')
  from gd j' first' have nan: "ch ! j = NaN"
    by (rule first_of_merchant_no_change)
  from gd have "length ch = length ?R"
    using groupby_diff_Inr(3) [OF gd] by simp
  with j' nan have flag: "map (\<lambda>x. fgt x (Fin 0)) ch ! j = fgt NaN (Fin 0)"
    by simp
  have "fst (rows R ! j) \<notin> fst ` set (rows out)" if "find_subscription_leeches conv f = Inr out" for out
  proof -
    from nan have "\<not> fgt (ch ! j) (Fin 0)" by simp
    with S that gd j' have "fst (?R ! j) \<notin> fst ` set (rows out)"
      by (rule no_change_not_reported)
    then show ?thesis by (simp add: R')
  qed
  with nan flag show ?thesis by simp
qed

text \<open>
  C2. A merchant with exactly one record in the file contributes no row. For a
  merchant with two or more records, the first record of its partition of the
  sorted frame is a row of \<^verbatim>\<open>recurring\<close> (line 17 keeps it), line 19 computes \<open>NaN\<close>
  for it, and no row of the result carries its index label.
\<close>

theorem single_and_first_records_excluded:
  assumes df0: "read_csv f = Inr df0"
    and S: "ordered conv f = Inr S"
    and out: "find_subscription_leeches conv f = Inr out"
  shows "(length (merchant_partition df0 m) = 1 \<longrightarrow> (\<forall>ir\<in>set (rows out). snd ir ''merchant'' \<noteq> m))
       \<and> (2 \<le> length (merchant_partition df0 m) \<longrightarrow>
            (\<exists>R ch j. recurring conv f = Inr R \<and> price_changes conv f = Inr ch
               \<and> j < length (rows R) \<and> rows R ! j = hd (merchant_partition S m)
               \<and> ch ! j = NaN
               \<and> fst (hd (merchant_partition S m)) \<notin> fst ` set (rows out)))"
proof (intro conjI impI ballI)
  let ?R = "filter (is_recurring S) (rows S)"
  have len: "length (merchant_partition S m) = length (merchant_partition df0 m)"
    using df0 S by (rule partition_length_ordered)
  {
    fix ir assume one: "length (merchant_partition df0 m) = 1" and ir: "ir \<in> set (rows out)"
    from ir have "(fst ir, snd ir) \<in> set (rows out)" by simp
    with S out obtain ch j where j: "j < length ?R"
      and r: "snd ir = (snd (?R ! j))(''price_change'' := Num (ch ! j))"
      by (rule hike_origin)
    from j have "?R ! j \<in> set ?R" by (rule nth_mem)
    then have "1 < length (merchant_partition S (snd (?R ! j) ''merchant''))"
      by (simp add: is_recurring_def)
    with one len have "snd (?R ! j) ''merchant'' \<noteq> m" by auto
    with r show "snd ir ''merchant'' \<noteq> m" by simp
  }
  {
    assume two: "2 \<le> length (merchant_partition df0 m)"
    from S out have lo: "leeches_of S = Inr out"
      by (simp add: find_subscription_leeches_stages)
    with S obtain ch where R: "recurring conv f = Inr (S\<lparr>rows := ?R\<rparr>)"
      and ch: "price_changes conv f = Inr ch"
      and gd: "groupby_diff ''merchant'' ''amount'' (S\<lparr>rows := ?R\<rparr>) = Inr ch"
      by (rule recurring_price_changes)
    from two len have "1 < length (merchant_partition S m)" by simp
    then obtain j where j: "j < length ?R" and hd: "?R ! j = hd (merchant_partition S m)"
      and first: "\<forall>i<j. snd (?R ! i) ''merchant'' \<noteq> snd (?R ! j) ''merchant''"
      by (rule first_of_partition_position)
    from gd j first have nan: "ch ! j = NaN"
      by (rule first_of_merchant_no_change)
    then have "\<not> fgt (ch ! j) (Fin 0)" by simp
    with S out gd j have "fst (?R ! j) \<notin> fst ` set (rows out)"
      by (rule no_change_not_reported)
    with hd have gone: "fst (hd (merchant_partition S m)) \<notin> fst ` set (rows out)" by simp
    from j hd have "j < length (rows (S\<lparr>rows := ?R\<rparr>))" "rows (S\<lparr>rows := ?R\<rparr>) ! j = hd (merchant_partition S m)"
      by simp_all
    with R ch nan gone
    show "\<exists>R ch j. recurring conv f = Inr R \<and> price_changes conv f = Inr ch
               \<and> j < length (rows R) \<and> rows R ! j = hd (merchant_partition S m)
               \<and> ch ! j = NaN
               \<and> fst (hd (merchant_partition S m)) \<notin> fst ` set (rows out)"
      by blast
  }
qed

subsection \<open>The order of the output\<close>

lemma parsed_rows_from_file:
  assumes "parsed conv (Table cols raw) = Inr df" "ir \<in> set (rows df)"
  shows "fst ir < length raw \<and> (\<forall>c. c \<noteq> ''date'' \<longrightarrow> snd ir c = (raw ! fst ir) c)"
proof -
  from assms(1) obtain cols' raw' ds where f: "Table cols raw = Table cols' raw'"
    and ds: "to_datetime conv (map (\<lambda>r. r ''date'') raw') = Inr ds"
    and df: "df = setitem \<lparr>columns = cols', rows = enumerate 0 raw'\<rparr> ''date'' ds"
    by (rule parsed_Inr)
  from f have [simp]: "raw' = raw" by simp
  from assms(2) obtain p where p: "p \<in> set (zip (enumerate 0 raw) ds)"
    and ir: "ir = (fst (fst p), (snd (fst p))(''date'' := snd p))"
    unfolding df by (auto simp: rows_setitem)
  from p obtain n where n: "n < length raw" "fst p = enumerate 0 raw ! n"
    by (auto simp: in_set_zip)
  then have "fst p = (n, raw ! n)"
    by (simp add: nth_enumerate_eq)
  with ir n(1) show ?thesis by simp
qed

lemma ordered_rows_from_file:
  assumes "ordered conv (Table cols raw) = Inr S" "ir \<in> set (rows S)"
  shows "fst ir < length raw \<and> (\<forall>c. c \<noteq> ''date'' \<longrightarrow> snd ir c = (raw ! fst ir) c)"
proof -
  from assms(1) obtain df where df: "parsed conv (Table cols raw) = Inr df"
    and S: "S = df\<lparr>rows := sort_key (row_key [''merchant'', ''date'']) (rows df)\<rparr>"
    by (rule ordered_Inr)
  from assms(2) have "ir \<in> set (rows df)" by (simp add: S)
  with df show ?thesis by (rule parsed_rows_from_file)
qed

lemma leeches_rows_image:
  fixes g :: "nat \<times> row \<Rightarrow> 'k"
  assumes out: "leeches_of S = Inr out"
    and g: "\<And>i r v. g (i, r(''price_change'' := v)) = g (i, r)"
  shows "\<exists>ch. map g (rows out) =
           map (\<lambda>p. g (fst p)) (filter (\<lambda>p. fgt (snd p) (Fin 0)) (zip (filter (is_recurring S) (rows S)) ch))
         \<and> map (\<lambda>p. g (fst p)) (zip (filter (is_recurring S) (rows S)) ch) =
           map g (filter (is_recurring S) (rows S))"
proof -
  let ?R = "filter (is_recurring S) (rows S)"
  from out obtain ch where len: "length ch = length ?R"
    and rows: "rows out = map (\<lambda>p. (fst (fst p), (snd (fst p))(''price_change'' := Num (snd p))))
                   (filter (\<lambda>p. fgt (snd p) (Fin 0)) (zip ?R ch))"
    by (rule leeches_of_Inr)
  have "map g (rows out) = map (\<lambda>p. g (fst p)) (filter (\<lambda>p. fgt (snd p) (Fin 0)) (zip ?R ch))"
    unfolding rows by (simp add: g)
  moreover have "map (\<lambda>p. g (fst p)) (zip ?R ch) = map g ?R"
    using len map_zip_fst [where f = g and xs = ?R and ys = ch] by simp
  ultimately show ?thesis by blast
qed

lemma leeches_sorted:
  fixes g :: "nat \<times> row \<Rightarrow> 'k::linorder"
  assumes out: "leeches_of S = Inr out"
    and g: "\<And>i r v. g (i, r(''price_change'' := v)) = g (i, r)"
    and sorted: "sorted (map g (rows S))"
  shows "sorted (map g (rows out))"
proof -
  let ?R = "filter (is_recurring S) (rows S)"
  let ?q = "\<lambda>p::(nat \<times> row) \<times> float64. fgt (snd p) (Fin 0)"
  from leeches_rows_image [OF out, of g] g obtain ch
    where 1: "map g (rows out) = map (\<lambda>p. g (fst p)) (filter ?q (zip ?R ch))"
      and 2: "map (\<lambda>p. g (fst p)) (zip ?R ch) = map g ?R"
    by blast
  from sorted have "sorted (map g ?R)"
    by (rule sorted_filter)
  then have "sorted (map (\<lambda>p. g (fst p)) (zip ?R ch))"
    by (simp only: 2)
  then have "sorted (map (\<lambda>p. g (fst p)) (filter ?q (zip ?R ch)))"
    by (rule sorted_filter)
  then show ?thesis by (simp only: 1)
qed

lemma leeches_distinct:
  assumes out: "leeches_of S = Inr out" and d: "distinct (map fst (rows S))"
  shows "distinct (map fst (rows out))"
proof -
  let ?R = "filter (is_recurring S) (rows S)"
  let ?q = "\<lambda>p::(nat \<times> row) \<times> float64. fgt (snd p) (Fin 0)"
  from leeches_rows_image [OF out, of fst] obtain ch
    where 1: "map fst (rows out) = map (\<lambda>p. fst (fst p)) (filter ?q (zip ?R ch))"
      and 2: "map (\<lambda>p. fst (fst p)) (zip ?R ch) = map fst ?R"
    by auto
  from d have "distinct (map fst ?R)"
    by (rule distinct_map_filter)
  then have "distinct (map (\<lambda>p. fst (fst p)) (zip ?R ch))"
    by (simp only: 2)
  then have "distinct (map (\<lambda>p. fst (fst p)) (filter ?q (zip ?R ch)))"
    by (rule distinct_map_filter)
  then show ?thesis by (simp only: 1)
qed

lemma row_key_triple:
  fixes x y :: "nat \<times> row"
  assumes "(row_key [''merchant'', ''date''] x, fst x) \<le> (row_key [''merchant'', ''date''] y, fst y)"
  shows "(cell_key (snd x ''merchant''), cell_key (snd x ''date''), fst x)
       \<le> (cell_key (snd y ''merchant''), cell_key (snd y ''date''), fst y)"
  using assms by (auto simp: row_key_def less_le)

text \<open>
  C3. The emitted rows are in ascending order of merchant, then of date, then of
  index label, and the index label of a row is its position in the file (the row
  carries the merchant and the amount of the file's row at that position): rows of
  one merchant and one date keep the order they had in the file.
\<close>

theorem hikes_ordered_by_merchant_date_position:
  assumes out: "find_subscription_leeches conv (Table cols raw) = Inr out"
  shows "sorted (map (\<lambda>ir. (cell_key (snd ir ''merchant''), cell_key (snd ir ''date''), fst ir)) (rows out))
       \<and> distinct (map fst (rows out))
       \<and> (\<forall>ir\<in>set (rows out). fst ir < length raw
             \<and> snd ir ''merchant'' = (raw ! fst ir) ''merchant''
             \<and> snd ir ''amount'' = (raw ! fst ir) ''amount'')"
proof -
  let ?g = "\<lambda>ir::nat \<times> row. (cell_key (snd ir ''merchant''), cell_key (snd ir ''date''), fst ir)"
  from out obtain S where S: "ordered conv (Table cols raw) = Inr S" and lo: "leeches_of S = Inr out"
    by (auto simp: find_subscription_leeches_stages then_do_Inr_iff)
  have "sorted (map (\<lambda>ir. (row_key [''merchant'', ''date''] ir, fst ir)) (rows S))"
    using S by (rule ordered_sorted)
  then have "sorted (map ?g (rows S))"
    by (rule sorted_map_coarser) (rule row_key_triple)
  then have 1: "sorted (map ?g (rows out))"
    using leeches_sorted [OF lo, of ?g] by simp
  from lo have 2: "distinct (map fst (rows out))"
    using ordered_distinct [OF S] by (rule leeches_distinct)
  have 3: "fst ir < length raw \<and> snd ir ''merchant'' = (raw ! fst ir) ''merchant''
           \<and> snd ir ''amount'' = (raw ! fst ir) ''amount''" if "ir \<in> set (rows out)" for ir
  proof -
    let ?R = "filter (is_recurring S) (rows S)"
    from that have "(fst ir, snd ir) \<in> set (rows out)" by simp
    with S out obtain ch j where j: "j < length ?R" and i: "fst (?R ! j) = fst ir"
      and r: "snd ir = (snd (?R ! j))(''price_change'' := Num (ch ! j))"
      by (rule hike_origin)
    from j have "?R ! j \<in> set ?R" by (rule nth_mem)
    then have "?R ! j \<in> set (rows S)" by simp
    with S have "fst (?R ! j) < length raw \<and> (\<forall>c. c \<noteq> ''date'' \<longrightarrow> snd (?R ! j) c = (raw ! fst (?R ! j)) c)"
      by (rule ordered_rows_from_file)
    with i r show ?thesis by simp
  qed
  from 1 2 3 show ?thesis by blast
qed

subsection \<open>The tool's three kinds of result\<close>

lemma leeches_of_columns:
  assumes "leeches_of S = Inr out"
  shows "''merchant'' \<in> set (columns out)" "''amount'' \<in> set (columns out)"
proof -
  from assms obtain ch where
    ch: "groupby_diff ''merchant'' ''amount'' (S\<lparr>rows := filter (is_recurring S) (rows S)\<rparr>) = Inr ch"
    and cols: "columns out = (if ''price_change'' \<in> set (columns S) then columns S else columns S @ [''price_change''])"
    by (rule leeches_of_Inr)
  from groupby_diff_Inr(1) [OF ch] groupby_diff_Inr(2) [OF ch]
  have "''merchant'' \<in> set (columns S)" "''amount'' \<in> set (columns S)" by simp_all
  with cols show "''merchant'' \<in> set (columns out)" "''amount'' \<in> set (columns out)"
    by simp_all
qed

lemma leeches_empty_frame:
  assumes "find_subscription_leeches conv f = Inr out"
  shows "empty_frame out \<longleftrightarrow> rows out = []"
proof -
  from assms obtain S where "leeches_of S = Inr out"
    by (auto simp: find_subscription_leeches_stages then_do_Inr_iff)
  then have "''merchant'' \<in> set (columns out)"
    by (rule leeches_of_columns)
  then have "columns out \<noteq> []" by auto
  then show ?thesis by (simp add: empty_frame_def)
qed

lemma to_json_brackets:
  "hd (to_json enc df) = CHR ''['' \<and> last (to_json enc df) = CHR '']''"
  by (simp add: to_json_def)

text \<open>
  C10. The tool returns a string on every input and lets no exception out: the
  text of the exception after \<^verbatim>\<open>Error: \<close> when the detector raises, the fixed
  sentence when the detector returns no row, and otherwise the JSON array of the
  rows, which starts with an opening bracket; the three are told apart by their
  first character.
\<close>

theorem analyze_transactions_total:
  "(\<exists>s. analyze_transactions conv enc f = Inr s)
   \<and> (\<forall>e. find_subscription_leeches conv f = Inl e \<longrightarrow>
          analyze_transactions conv enc f = Inr (''Error: '' @ str_exn e))
   \<and> (\<forall>out. find_subscription_leeches conv f = Inr out \<and> rows out = [] \<longrightarrow>
          analyze_transactions conv enc f = Inr ''No price hikes found.'')
   \<and> (\<forall>out. find_subscription_leeches conv f = Inr out \<and> rows out \<noteq> [] \<longrightarrow>
          analyze_transactions conv enc f = Inr (to_json enc out)
          \<and> hd (to_json enc out) = CHR ''['' \<and> last (to_json enc out) = CHR '']'')
   \<and> (\<forall>msg. hd (''Error: '' @ msg) = CHR ''E'')
   \<and> hd ''No price hikes found.'' = CHR ''N''"
proof -
  have 2: "analyze_transactions conv enc f = Inr (''Error: '' @ str_exn e)"
    if "find_subscription_leeches conv f = Inl e" for e
    using that by (simp add: analyze_transactions_def)
  have 3: "analyze_transactions conv enc f = Inr ''No price hikes found.''"
    if "find_subscription_leeches conv f = Inr out \<and> rows out = []" for out
    using that leeches_empty_frame [of conv f out] by (simp add: analyze_transactions_def)
  have 4: "analyze_transactions conv enc f = Inr (to_json enc out)
          \<and> hd (to_json enc out) = CHR ''['' \<and> last (to_json enc out) = CHR '']''"
    if "find_subscription_leeches conv f = Inr out \<and> rows out \<noteq> []" for out
    using that leeches_empty_frame [of conv f out] to_json_brackets [of enc out]
    by (simp add: analyze_transactions_def)
  have 1: "\<exists>s. analyze_transactions conv enc f = Inr s"
  proof (cases "find_subscription_leeches conv f")
    case (Inl e)
    with 2 show ?thesis by blast
  next
    case (Inr out)
    with 3 4 show ?thesis by (cases "rows out = []") blast+
  qed
  from 2 have all2: "\<forall>e. find_subscription_leeches conv f = Inl e \<longrightarrow>
          analyze_transactions conv enc f = Inr (''Error: '' @ str_exn e)"
    by blast
  from 3 have all3: "\<forall>out. find_subscription_leeches conv f = Inr out \<and> rows out = [] \<longrightarrow>
          analyze_transactions conv enc f = Inr ''No price hikes found.''"
    by blast
  from 4 have all4: "\<forall>out. find_subscription_leeches conv f = Inr out \<and> rows out \<noteq> [] \<longrightarrow>
          analyze_transactions conv enc f = Inr (to_json enc out)
          \<and> hd (to_json enc out) = CHR ''['' \<and> last (to_json enc out) = CHR '']''"
    by blast
  show ?thesis
    by (intro conjI 1 all2 all3 all4) simp_all
qed

text \<open>
  C6. A file with the three columns and no row: the detector returns a frame with
  no row, and the tool returns the sentence of line 30, which is not a string of
  the handler of line 33.
\<close>

theorem no_rows_is_no_findings:
  assumes "{''date'', ''merchant'', ''amount''} \<subseteq> set cols"
  shows "\<exists>out. find_subscription_leeches conv (Table cols []) = Inr out \<and> rows out = []
           \<and> analyze_transactions conv enc (Table cols []) = Inr ''No price hikes found.''
           \<and> (\<forall>msg. analyze_transactions conv enc (Table cols []) \<noteq> Inr (''Error: '' @ msg))"
proof -
  let ?out = "\<lparr>columns = (if ''price_change'' \<in> set cols then cols else cols @ [''price_change'']),
               rows = []\<rparr>"
  from assms have "find_subscription_leeches conv (Table cols []) = Inr ?out"
    by (simp add: find_subscription_leeches_def getitem_def to_datetime_def setitem_def
          sort_values_def duplicated_def mask_def groupby_diff_def group_shift_def)
  moreover from this have "analyze_transactions conv enc (Table cols []) = Inr ''No price hikes found.''"
    by (simp add: analyze_transactions_def empty_frame_def)
  ultimately show ?thesis by simp
qed

subsection \<open>Missing columns and values that do not convert\<close>

lemma parsed_columns:
  assumes "read_csv f = Inr df" "parsed conv f = Inr d"
  shows "''date'' \<in> set (columns df)" "columns d = columns df"
proof -
  from assms(2) obtain cols raw ds where f: "f = Table cols raw" and c: "''date'' \<in> set cols"
    and d: "d = setitem \<lparr>columns = cols, rows = enumerate 0 raw\<rparr> ''date'' ds"
    by (rule parsed_Inr)
  from assms(1) f have "columns df = cols" by auto
  with c d show "''date'' \<in> set (columns df)" "columns d = columns df"
    by (simp_all add: columns_setitem)
qed

lemma report_Inl: "report enc (Inl e) = Inr (''Error: '' @ str_exn e)"
  by (simp add: report_def)

lemma missing_date:
  assumes "read_csv f = Inr df" "''date'' \<notin> set (columns df)"
  shows "find_subscription_leeches conv f = Inl (KeyError ''date'')"
  using assms by (simp add: find_subscription_leeches_def getitem_def)

lemma parsed_fails:
  assumes "parsed conv f = Inl e"
  shows "find_subscription_leeches conv f = Inl e"
  using assms by (simp add: find_subscription_leeches_stages ordered_def)

lemma missing_merchant:
  assumes "read_csv f = Inr df" "parsed conv f = Inr d" "''merchant'' \<notin> set (columns df)"
  shows "find_subscription_leeches conv f = Inl (KeyError ''merchant'')"
proof -
  from assms have "''merchant'' \<notin> set (columns d)"
    by (simp add: parsed_columns)
  then have "sort_values [''merchant'', ''date''] d = Inl (KeyError ''merchant'')"
    by (simp add: sort_values_def)
  with assms(2) show ?thesis
    by (simp add: find_subscription_leeches_stages ordered_def)
qed

lemma missing_amount:
  assumes "read_csv f = Inr df" "parsed conv f = Inr d" "''merchant'' \<in> set (columns df)"
    "''amount'' \<notin> set (columns df)"
  shows "find_subscription_leeches conv f = Inl (KeyError ''Column not found: amount'')"
proof -
  let ?S = "d\<lparr>rows := sort_key (row_key [''merchant'', ''date'']) (rows d)\<rparr>"
  from assms have cols: "columns d = columns df" and date: "''date'' \<in> set (columns df)"
    by (simp_all add: parsed_columns)
  with assms(3) have "sort_values [''merchant'', ''date''] d = Inr ?S"
    by (simp add: sort_values_Inr)
  with assms(2) have S: "ordered conv f = Inr ?S"
    by (simp add: ordered_def)
  from cols assms(3,4) have "leeches_of ?S = Inl (KeyError ''Column not found: amount'')"
    by (simp add: leeches_of_def duplicated_def groupby_diff_def Let_def)
  with S show ?thesis
    by (simp add: find_subscription_leeches_stages)
qed

text \<open>
  C4 (as amended). With a required column missing the detector raises and returns
  no frame, and the tool returns \<^verbatim>\<open>Error: \<close> and the text of the exception. The
  exception is the \<^verbatim>\<open>KeyError\<close> of the first access that fails: \<^verbatim>\<open>'date'\<close> on line
  14; when the dates convert, \<^verbatim>\<open>'merchant'\<close> on line 15, and otherwise
  \<^verbatim>\<open>'Column not found: amount'\<close> on line 19.
\<close>

theorem missing_column_is_key_error_string:
  assumes df: "read_csv f = Inr df"
    and missing: "\<not> {''date'', ''merchant'', ''amount''} \<subseteq> set (columns df)"
  shows "\<exists>e. find_subscription_leeches conv f = Inl e
           \<and> analyze_transactions conv enc f = Inr (''Error: '' @ str_exn e)
           \<and> (''date'' \<notin> set (columns df) \<longrightarrow> e = KeyError ''date'')
           \<and> ((\<exists>d. parsed conv f = Inr d) \<and> ''merchant'' \<notin> set (columns df) \<longrightarrow>
                 e = KeyError ''merchant'')
           \<and> ((\<exists>d. parsed conv f = Inr d) \<and> ''merchant'' \<in> set (columns df) \<longrightarrow>
                 e = KeyError ''Column not found: amount'')"
proof -
  have tool: "analyze_transactions conv enc f = Inr (''Error: '' @ str_exn e)"
    if "find_subscription_leeches conv f = Inl e" for e
    using that by (simp add: analyze_transactions_report report_Inl)
  show ?thesis
  proof (cases "parsed conv f")
    case (Inl e)
    then have e: "find_subscription_leeches conv f = Inl e"
      by (rule parsed_fails)
    have "e = KeyError ''date''" if "''date'' \<notin> set (columns df)"
      using missing_date [OF df that, of conv] e by simp
    with e tool [OF e] Inl show ?thesis by auto
  next
    case (Inr d)
    with df have date: "''date'' \<in> set (columns df)"
      by (rule parsed_columns)
    show ?thesis
    proof (cases "''merchant'' \<in> set (columns df)")
      case False
      with df Inr have e: "find_subscription_leeches conv f = Inl (KeyError ''merchant'')"
        by (rule missing_merchant)
      with tool [OF e] date False show ?thesis by auto
    next
      case True
      with missing date have "''amount'' \<notin> set (columns df)" by simp
      with df Inr True
      have e: "find_subscription_leeches conv f = Inl (KeyError ''Column not found: amount'')"
        by (rule missing_amount)
      with tool [OF e] date True show ?thesis by auto
    qed
  qed
qed








subsection \<open>The records of the output, and the uniqueness of the sort\<close>

lemma ordered_columns:
  assumes "ordered conv (Table cols raw) = Inr S"
  shows "columns S = cols"
proof -
  from assms obtain df where df: "parsed conv (Table cols raw) = Inr df"
    and S: "S = df\<lparr>rows := sort_key (row_key [''merchant'', ''date'']) (rows df)\<rparr>"
    by (rule ordered_Inr)
  have "read_csv (Table cols raw) = Inr \<lparr>columns = cols, rows = enumerate 0 raw\<rparr>"
    by simp
  from parsed_columns(2) [OF this df] S show ?thesis by simp
qed

text \<open>
  C7 (as amended). The members of every record of the output are the columns of
  the input table, in their order, followed by \<^verbatim>\<open>price_change\<close> (in place, when the
  table already has a column of that name); columns beyond the three required ones
  are kept, and every cell other than the date and the price change is the cell of
  the file's row.
\<close>

theorem record_fields_are_frame_columns:
  assumes out: "find_subscription_leeches conv (Table cols raw) = Inr out"
  shows "columns out = (if ''price_change'' \<in> set cols then cols else cols @ [''price_change''])
       \<and> length (records out) = length (rows out)
       \<and> (\<forall>rec\<in>set (records out). map fst rec = columns out)
       \<and> (\<forall>ir\<in>set (rows out). \<forall>c. c \<noteq> ''date'' \<and> c \<noteq> ''price_change'' \<longrightarrow>
             snd ir c = (raw ! fst ir) c)"
proof -
  from out obtain S where S: "ordered conv (Table cols raw) = Inr S" and lo: "leeches_of S = Inr out"
    by (auto simp: find_subscription_leeches_stages then_do_Inr_iff)
  from lo obtain ch where
    "columns out = (if ''price_change'' \<in> set (columns S) then columns S else columns S @ [''price_change''])"
    by (rule leeches_of_Inr)
  with ordered_columns [OF S]
  have 1: "columns out = (if ''price_change'' \<in> set cols then cols else cols @ [''price_change''])"
    by simp
  have 2: "length (records out) = length (rows out)"
    by (simp add: records_def)
  have 3: "\<forall>rec\<in>set (records out). map fst rec = columns out"
    by (auto simp: records_def comp_def)
  have 4: "snd ir c = (raw ! fst ir) c"
    if "ir \<in> set (rows out)" "c \<noteq> ''date'' \<and> c \<noteq> ''price_change''" for ir c
  proof -
    let ?R = "filter (is_recurring S) (rows S)"
    from that(1) have "(fst ir, snd ir) \<in> set (rows out)" by simp
    with S out obtain ch j where j: "j < length ?R" and i: "fst (?R ! j) = fst ir"
      and r: "snd ir = (snd (?R ! j))(''price_change'' := Num (ch ! j))"
      by (rule hike_origin)
    from j have "?R ! j \<in> set ?R" by (rule nth_mem)
    then have "?R ! j \<in> set (rows S)" by simp
    with S have "\<forall>c. c \<noteq> ''date'' \<longrightarrow> snd (?R ! j) c = (raw ! fst (?R ! j)) c"
      using ordered_rows_from_file by blast
    with i r that(2) show ?thesis by simp
  qed
  from 1 2 3 4 show ?thesis by blast
qed



subsection \<open>The example files, evaluated\<close>

lemmas stage_defs = find_subscription_leeches_def ordered_def parsed_def recurring_def
  price_changes_def

lemmas call_defs = getitem_def setitem_def mask_def to_datetime_def sort_values_def row_key_def
  duplicated_def groupby_diff_def group_shift_def stamp_def isna_def enumerate_eq_zip Let_def

lemmas demo_defs = scenario_a_def scenario_b_def scenario_ties_def ties_rows_def row_of_def demo_conv_def
  no_amount_def bad_amount_once_def bad_amount_twice_def bad_date_def with_note_def note_rows_def

lemma scenario_a_read:
  "read_csv scenario_a = Inr df0 \<Longrightarrow>
     length (merchant_partition df0 (Str ''B'')) = 1 \<and> length (merchant_partition df0 (Str ''A'')) = 3"
  by (auto simp: scenario_a_def row_of_def merchant_partition_def enumerate_eq_zip)

lemma scenario_a_ordered:
  "\<exists>S. ordered demo_conv scenario_a = Inr S \<and> map fst (rows S) = [0, 1, 2, 3]"
  by (simp add: stage_defs call_defs demo_defs)

lemma scenario_a_recurring:
  "\<exists>R. recurring demo_conv scenario_a = Inr R \<and> map fst (rows R) = [0, 1, 2]
      \<and> map (\<lambda>ir. snd ir ''merchant'') (rows R) = [Str ''A'', Str ''A'', Str ''A'']"
  by (simp add: stage_defs call_defs demo_defs merchant_partition_def)

lemma scenario_a_changes:
  "price_changes demo_conv scenario_a = Inr [NaN, Fin 2, Fin 0]"
  by (simp add: stage_defs call_defs demo_defs)

lemma scenario_a_leeches:
  "\<exists>out. find_subscription_leeches demo_conv scenario_a = Inr out \<and> map fst (rows out) = [1]
     \<and> records out = [[(''date'', Time 2), (''merchant'', Str ''A''), (''amount'', Num (Fin 12)),
                        (''price_change'', Num (Fin 2))]]"
  by (simp add: stage_defs call_defs demo_defs records_def)

lemma scenario_b_leeches:
  "\<exists>out. find_subscription_leeches demo_conv scenario_b = Inr out \<and> map fst (rows out) = [2]
     \<and> records out = [[(''date'', Time 3), (''merchant'', Str ''C''), (''amount'', Num (Fin 30)),
                        (''price_change'', Num (Fin 15))]]"
  by (simp add: stage_defs call_defs demo_defs records_def)

lemma scenario_ties_recurring:
  "\<exists>R. recurring demo_conv scenario_ties = Inr R \<and> map fst (rows R) = [3, 2, 4, 1, 0]
      \<and> map (\<lambda>ir. snd ir ''merchant'') (rows R) = [Str ''A'', Str ''A'', Str ''A'', Str ''B'', Str ''B'']"
  by (simp add: stage_defs call_defs demo_defs merchant_partition_def)

lemma scenario_ties_changes:
  "price_changes demo_conv scenario_ties = Inr [NaN, Fin 2, Fin 1, NaN, Fin 2]"
  by (simp add: stage_defs call_defs demo_defs)

lemma scenario_ties_leeches:
  "\<exists>out. find_subscription_leeches demo_conv scenario_ties = Inr out \<and> map fst (rows out) = [2, 4, 0]"
  by (simp add: stage_defs call_defs demo_defs)



theorem single_and_first_records_excluded_witness:
  "\<exists>df0 S out. read_csv scenario_a = Inr df0
     \<and> ordered demo_conv scenario_a = Inr S
     \<and> find_subscription_leeches demo_conv scenario_a = Inr out
     \<and> length (merchant_partition df0 (Str ''B'')) = 1
     \<and> Str ''B'' \<notin> (\<lambda>ir. snd ir ''merchant'') ` set (rows out)
     \<and> 2 \<le> length (merchant_partition df0 (Str ''A''))
     \<and> (\<exists>R ch j. recurring demo_conv scenario_a = Inr R \<and> price_changes demo_conv scenario_a = Inr ch
               \<and> j < length (rows R) \<and> rows R ! j = hd (merchant_partition S (Str ''A''))
               \<and> ch ! j = NaN
               \<and> fst (hd (merchant_partition S (Str ''A''))) \<notin> fst ` set (rows out))"
proof -
  obtain df0 where df0: "read_csv scenario_a = Inr df0"
    by (simp add: scenario_a_def)
  from scenario_a_ordered obtain S where S: "ordered demo_conv scenario_a = Inr S"
    by blast
  from scenario_a_leeches obtain out
    where out: "find_subscription_leeches demo_conv scenario_a = Inr out"
    by blast
  from scenario_a_read [OF df0] have b: "length (merchant_partition df0 (Str ''B'')) = 1"
    and a: "2 \<le> length (merchant_partition df0 (Str ''A''))"
    by simp_all
  from single_and_first_records_excluded [OF df0 S out, of "Str ''B''"] b
  have 1: "Str ''B'' \<notin> (\<lambda>ir. snd ir ''merchant'') ` set (rows out)"
    by auto
  from single_and_first_records_excluded [OF df0 S out, of "Str ''A''"] a
  have 2: "\<exists>R ch j. recurring demo_conv scenario_a = Inr R \<and> price_changes demo_conv scenario_a = Inr ch
               \<and> j < length (rows R) \<and> rows R ! j = hd (merchant_partition S (Str ''A''))
               \<and> ch ! j = NaN
               \<and> fst (hd (merchant_partition S (Str ''A''))) \<notin> fst ` set (rows out)"
    by simp
  from df0 S out b 1 a 2
  have body: "read_csv scenario_a = Inr df0
     \<and> ordered demo_conv scenario_a = Inr S
     \<and> find_subscription_leeches demo_conv scenario_a = Inr out
     \<and> length (merchant_partition df0 (Str ''B'')) = 1
     \<and> Str ''B'' \<notin> (\<lambda>ir. snd ir ''merchant'') ` set (rows out)
     \<and> 2 \<le> length (merchant_partition df0 (Str ''A''))
     \<and> (\<exists>R ch j. recurring demo_conv scenario_a = Inr R \<and> price_changes demo_conv scenario_a = Inr ch
               \<and> j < length (rows R) \<and> rows R ! j = hd (merchant_partition S (Str ''A''))
               \<and> ch ! j = NaN
               \<and> fst (hd (merchant_partition S (Str ''A''))) \<notin> fst ` set (rows out))"
    by (intro conjI)
  show ?thesis
    by (rule exI [where x = df0], rule exI [where x = S], rule exI [where x = out], rule body)
qed

theorem hikes_ordered_by_merchant_date_position_witness:
  "\<exists>out. find_subscription_leeches demo_conv (Table [''date'', ''merchant'', ''amount''] ties_rows) = Inr out
     \<and> map fst (rows out) = [2, 4, 0]
     \<and> sorted (map (\<lambda>ir. (cell_key (snd ir ''merchant''), cell_key (snd ir ''date''), fst ir)) (rows out))
     \<and> distinct (map fst (rows out))
     \<and> fst ` set (rows out) \<subseteq> {i. i < length ties_rows}
     \<and> map (\<lambda>ir. snd ir ''merchant'') (rows out) = map (\<lambda>ir. (ties_rows ! fst ir) ''merchant'') (rows out)
     \<and> map (\<lambda>ir. snd ir ''amount'') (rows out) = map (\<lambda>ir. (ties_rows ! fst ir) ''amount'') (rows out)"
proof -
  from scenario_ties_leeches obtain out
    where out: "find_subscription_leeches demo_conv (Table [''date'', ''merchant'', ''amount''] ties_rows) = Inr out"
      and idx: "map fst (rows out) = [2, 4, 0]"
    by (auto simp: scenario_ties_def)
  note inst = hikes_ordered_by_merchant_date_position [OF out]
  from inst have "fst ` set (rows out) \<subseteq> {i. i < length ties_rows}"
    by auto
  moreover from inst
  have "map (\<lambda>ir. snd ir ''merchant'') (rows out) = map (\<lambda>ir. (ties_rows ! fst ir) ''merchant'') (rows out)"
    by simp
  moreover from inst
  have "map (\<lambda>ir. snd ir ''amount'') (rows out) = map (\<lambda>ir. (ties_rows ! fst ir) ''amount'') (rows out)"
    by simp
  ultimately show ?thesis
    using out idx inst by (intro exI [where x = out] conjI) simp_all
qed

theorem first_record_delta_is_nan_witness:
  "\<exists>R ch. recurring demo_conv scenario_ties = Inr R
     \<and> price_changes demo_conv scenario_ties = Inr ch
     \<and> 3 < length (rows R)
     \<and> snd (rows R ! 3) ''merchant'' \<notin> (\<lambda>ir. snd ir ''merchant'') ` set (take 3 (rows R))
     \<and> ch ! 3 = NaN
     \<and> map (\<lambda>x. fgt x (Fin 0)) ch ! 3 = fgt NaN (Fin 0)
     \<and> \<not> fgt NaN (Fin 0)
     \<and> (\<exists>out. find_subscription_leeches demo_conv scenario_ties = Inr out
            \<and> fst (rows R ! 3) \<notin> fst ` set (rows out))"
proof -
  from scenario_ties_recurring obtain R where R: "recurring demo_conv scenario_ties = Inr R"
    and idx: "map fst (rows R) = [3, 2, 4, 1, 0]"
    and ms: "map (\<lambda>ir. snd ir ''merchant'') (rows R) = [Str ''A'', Str ''A'', Str ''A'', Str ''B'', Str ''B'']"
    by (elim exE conjE) (rule that)
  note ch = scenario_ties_changes
  from scenario_ties_leeches obtain out
    where out: "find_subscription_leeches demo_conv scenario_ties = Inr out"
    by blast
  from idx have "length (map fst (rows R)) = length [3, 2, 4, 1, 0::nat]"
    by simp
  then have len: "length (rows R) = 5"
    by simp
  have nth: "snd (rows R ! i) ''merchant'' = [Str ''A'', Str ''A'', Str ''A'', Str ''B'', Str ''B''] ! i" if "i < 5" for i
    using that len nth_map [of i "rows R" "\<lambda>ir. snd ir ''merchant''"] ms by simp
  have j: "3 < length (rows R)" using len by simp
  have first: "\<forall>i<3. snd (rows R ! i) ''merchant'' \<noteq> snd (rows R ! 3) ''merchant''"
    by (auto simp: nth less_Suc_eq numeral_3_eq_3)
  have "snd (rows R ! 3) ''merchant'' \<notin> (\<lambda>ir. snd ir ''merchant'') ` set (take 3 (rows R))"
  proof
    assume "snd (rows R ! 3) ''merchant'' \<in> (\<lambda>ir. snd ir ''merchant'') ` set (take 3 (rows R))"
    then obtain x where x: "x \<in> set (take 3 (rows R))" "snd x ''merchant'' = snd (rows R ! 3) ''merchant''"
      by auto
    from x(1) obtain i where "i < length (take 3 (rows R))" "take 3 (rows R) ! i = x"
      by (auto simp: in_set_conv_nth)
    with j have "i < 3" "rows R ! i = x" by simp_all
    with first x(2) show False by metis
  qed
  with R ch j out first_record_delta_is_nan [OF R ch j first]
  have body: "recurring demo_conv scenario_ties = Inr R
     \<and> price_changes demo_conv scenario_ties = Inr [NaN, Fin 2, Fin 1, NaN, Fin 2]
     \<and> 3 < length (rows R)
     \<and> snd (rows R ! 3) ''merchant'' \<notin> (\<lambda>ir. snd ir ''merchant'') ` set (take 3 (rows R))
     \<and> [NaN, Fin 2, Fin 1, NaN, Fin 2] ! 3 = NaN
     \<and> map (\<lambda>x. fgt x (Fin 0)) [NaN, Fin 2, Fin 1, NaN, Fin 2] ! 3 = fgt NaN (Fin 0)
     \<and> \<not> fgt NaN (Fin 0)
     \<and> (\<exists>out. find_subscription_leeches demo_conv scenario_ties = Inr out
            \<and> fst (rows R ! 3) \<notin> fst ` set (rows out))"
    by (intro conjI) blast+
  show ?thesis
    by (rule exI [where x = R], rule exI [where x = "[NaN, Fin 2, Fin 1, NaN, Fin 2]"], rule body)
qed

theorem no_rows_is_no_findings_witness:
  "{''date'', ''merchant'', ''amount''} \<subseteq> set [''date'', ''merchant'', ''amount'']
   \<and> (\<exists>out. find_subscription_leeches demo_conv (Table [''date'', ''merchant'', ''amount''] []) = Inr out
           \<and> rows out = []
           \<and> analyze_transactions demo_conv demo_enc (Table [''date'', ''merchant'', ''amount''] [])
               = Inr ''No price hikes found.'')"
  using no_rows_is_no_findings [of "[''date'', ''merchant'', ''amount'']" demo_conv demo_enc]
  by auto

lemma no_amount_parsed: "\<exists>d. parsed demo_conv no_amount = Inr d"
  by (simp add: stage_defs call_defs demo_defs)


lemma scenario_a_json:
  "analyze_transactions demo_conv demo_enc scenario_a =
     Inr (''[{'' @ quoted ''date'' @ '':1707091200000,'' @ quoted ''merchant'' @ '':'' @ quoted ''A''
          @ '','' @ quoted ''amount'' @ '':12.0,'' @ quoted ''price_change'' @ '':2.0}]'')"
  by (simp add: analyze_transactions_def stage_defs call_defs demo_defs records_def to_json_def
        empty_frame_def demo_enc_def)

text \<open>
  C4 as stated fails: with the \<^verbatim>\<open>amount\<close> column missing the detector raises Python's
  \<^verbatim>\<open>KeyError\<close> and the tool returns an ordinary string, the message after
  \<^verbatim>\<open>Error: \<close>.
\<close>

theorem schema_error_counterexample:
  "find_subscription_leeches demo_conv no_amount = Inl (KeyError ''Column not found: amount'')
   \<and> analyze_transactions demo_conv demo_enc no_amount =
       Inr (''Error: '' @ CHR 0x27 # ''Column not found: amount'' @ [CHR 0x27])"
  by (simp add: analyze_transactions_def stage_defs call_defs demo_defs)


text \<open>
  C9 as stated fails: in scenario A the delta computed for the first record of
  merchant A is the float \<open>NaN\<close>, and the flags of line 21 are the comparison
  applied to all three deltas, \<open>NaN\<close> included.
\<close>

theorem absent_delta_counterexample:
  "price_changes demo_conv scenario_a = Inr [NaN, Fin 2, Fin 0]
   \<and> map (\<lambda>x. fgt x (Fin 0)) [NaN, Fin 2, Fin 0] = [fgt NaN (Fin 0), True, False]
   \<and> fgt NaN (Fin 0) = False"
  by (simp add: stage_defs call_defs demo_defs)

theorem missing_column_is_key_error_string_witness:
  "\<exists>df. read_csv no_amount = Inr df
     \<and> \<not> {''date'', ''merchant'', ''amount''} \<subseteq> set (columns df)
     \<and> (\<exists>d. parsed demo_conv no_amount = Inr d)
     \<and> ''merchant'' \<in> set (columns df)
     \<and> find_subscription_leeches demo_conv no_amount = Inl (KeyError ''Column not found: amount'')
     \<and> analyze_transactions demo_conv demo_enc no_amount =
         Inr (''Error: '' @ str_exn (KeyError ''Column not found: amount''))"
proof -
  obtain df where df: "read_csv no_amount = Inr df" and cols: "columns df = [''date'', ''merchant'']"
    by (simp add: no_amount_def)
  from cols have missing: "\<not> {''date'', ''merchant'', ''amount''} \<subseteq> set (columns df)"
    and m: "''merchant'' \<in> set (columns df)"
    by simp_all
  note p = no_amount_parsed
  from missing_column_is_key_error_string [OF df missing, of demo_conv demo_enc] p m
  have "find_subscription_leeches demo_conv no_amount = Inl (KeyError ''Column not found: amount'')
     \<and> analyze_transactions demo_conv demo_enc no_amount =
         Inr (''Error: '' @ str_exn (KeyError ''Column not found: amount''))"
    by auto
  with df missing p m
  have body: "read_csv no_amount = Inr df
     \<and> \<not> {''date'', ''merchant'', ''amount''} \<subseteq> set (columns df)
     \<and> (\<exists>d. parsed demo_conv no_amount = Inr d)
     \<and> ''merchant'' \<in> set (columns df)
     \<and> find_subscription_leeches demo_conv no_amount = Inl (KeyError ''Column not found: amount'')
     \<and> analyze_transactions demo_conv demo_enc no_amount =
         Inr (''Error: '' @ str_exn (KeyError ''Column not found: amount''))"
    by (intro conjI) simp_all
  show ?thesis
    by (rule exI [where x = df]) (rule body)
qed


theorem analyze_transactions_total_witness:
  "analyze_transactions demo_conv demo_enc no_amount =
       Inr (''Error: '' @ str_exn (KeyError ''Column not found: amount''))
   \<and> analyze_transactions demo_conv demo_enc bad_amount_once = Inr ''No price hikes found.''
   \<and> (\<exists>out. find_subscription_leeches demo_conv scenario_a = Inr out \<and> rows out \<noteq> []
          \<and> analyze_transactions demo_conv demo_enc scenario_a = Inr (to_json demo_enc out)
          \<and> to_json demo_enc out =
               ''[{'' @ quoted ''date'' @ '':1707091200000,'' @ quoted ''merchant'' @ '':'' @ quoted ''A''
               @ '','' @ quoted ''amount'' @ '':12.0,'' @ quoted ''price_change'' @ '':2.0}]''
          \<and> hd (to_json demo_enc out) = CHR ''['' \<and> last (to_json demo_enc out) = CHR '']'')"
proof -
  note total = analyze_transactions_total [of demo_conv demo_enc]
  have "find_subscription_leeches demo_conv no_amount = Inl (KeyError ''Column not found: amount'')"
    by (simp add: stage_defs call_defs demo_defs)
  with total [of no_amount]
  have 1: "analyze_transactions demo_conv demo_enc no_amount =
       Inr (''Error: '' @ str_exn (KeyError ''Column not found: amount''))"
    by blast
  have "\<exists>out. find_subscription_leeches demo_conv bad_amount_once = Inr out \<and> rows out = []"
    by (simp add: stage_defs call_defs demo_defs merchant_partition_def)
  with total [of bad_amount_once]
  have 2: "analyze_transactions demo_conv demo_enc bad_amount_once = Inr ''No price hikes found.''"
    by blast
  from scenario_a_leeches obtain out
    where out: "find_subscription_leeches demo_conv scenario_a = Inr out"
      and idx: "map fst (rows out) = [1]"
    by (elim exE conjE) (rule that)
  from idx have ne: "rows out \<noteq> []" by auto
  from total [of scenario_a] out ne
  have 3: "analyze_transactions demo_conv demo_enc scenario_a = Inr (to_json demo_enc out)
          \<and> hd (to_json demo_enc out) = CHR ''['' \<and> last (to_json demo_enc out) = CHR '']''"
    by blast
  with scenario_a_json
  have 4: "to_json demo_enc out =
               ''[{'' @ quoted ''date'' @ '':1707091200000,'' @ quoted ''merchant'' @ '':'' @ quoted ''A''
               @ '','' @ quoted ''amount'' @ '':12.0,'' @ quoted ''price_change'' @ '':2.0}]''"
    by simp
  from out ne 3 4
  have body: "find_subscription_leeches demo_conv scenario_a = Inr out \<and> rows out \<noteq> []
          \<and> analyze_transactions demo_conv demo_enc scenario_a = Inr (to_json demo_enc out)
          \<and> to_json demo_enc out =
               ''[{'' @ quoted ''date'' @ '':1707091200000,'' @ quoted ''merchant'' @ '':'' @ quoted ''A''
               @ '','' @ quoted ''amount'' @ '':12.0,'' @ quoted ''price_change'' @ '':2.0}]''
          \<and> hd (to_json demo_enc out) = CHR ''['' \<and> last (to_json demo_enc out) = CHR '']''"
    by (intro conjI) simp_all
  have "\<exists>out. find_subscription_leeches demo_conv scenario_a = Inr out \<and> rows out \<noteq> []
          \<and> analyze_transactions demo_conv demo_enc scenario_a = Inr (to_json demo_enc out)
          \<and> to_json demo_enc out =
               ''[{'' @ quoted ''date'' @ '':1707091200000,'' @ quoted ''merchant'' @ '':'' @ quoted ''A''
               @ '','' @ quoted ''amount'' @ '':12.0,'' @ quoted ''price_change'' @ '':2.0}]''
          \<and> hd (to_json demo_enc out) = CHR ''['' \<and> last (to_json demo_enc out) = CHR '']''"
    by (rule exI [where x = out]) (rule body)
  with 1 2 show ?thesis by (intro conjI)
qed

lemma with_note_leeches:
  "\<exists>out. find_subscription_leeches demo_conv with_note = Inr out
     \<and> map fst (rows out) = [1]
     \<and> records out = [[(''date'', Time 2), (''merchant'', Str ''A''), (''amount'', Num (Fin 12)),
                        (''note'', Str ''y''), (''price_change'', Num (Fin 2))]]"
  by (simp add: stage_defs call_defs demo_defs records_def)

text \<open>
  C7 as stated fails: on scenario A with a fourth column \<^verbatim>\<open>note\<close>, the one record of
  the output has the members \<^verbatim>\<open>date\<close>, \<^verbatim>\<open>merchant\<close>, \<^verbatim>\<open>amount\<close>, \<^verbatim>\<open>note\<close> and
  \<^verbatim>\<open>price_change\<close>: the extra column is there, and none of \<^verbatim>\<open>previous_amount\<close>,
  \<^verbatim>\<open>new_amount\<close>, \<^verbatim>\<open>delta\<close> and \<^verbatim>\<open>occurred_at\<close> is.
\<close>

theorem output_fields_counterexample:
  "\<exists>out. find_subscription_leeches demo_conv with_note = Inr out
     \<and> map (map fst) (records out) = [[''date'', ''merchant'', ''amount'', ''note'', ''price_change'']]
     \<and> map (map fst) (records out) \<noteq>
         [[''merchant'', ''previous_amount'', ''new_amount'', ''delta'', ''occurred_at'']]"
  by (simp add: stage_defs call_defs demo_defs records_def)

theorem record_fields_are_frame_columns_witness:
  "\<exists>out. find_subscription_leeches demo_conv (Table [''date'', ''merchant'', ''amount'', ''note''] note_rows) = Inr out
     \<and> columns out = [''date'', ''merchant'', ''amount'', ''note'', ''price_change'']
     \<and> length (records out) = length (rows out)
     \<and> map (map fst) (records out) = map (\<lambda>rec. columns out) (records out)
     \<and> map fst (rows out) = [1]
     \<and> map (\<lambda>ir. snd ir ''note'') (rows out) = [(note_rows ! 1) ''note'']
     \<and> map (\<lambda>ir. snd ir ''merchant'') (rows out) = [(note_rows ! 1) ''merchant'']"
proof -
  from with_note_leeches obtain out
    where out: "find_subscription_leeches demo_conv (Table [''date'', ''merchant'', ''amount'', ''note''] note_rows) = Inr out"
      and idx: "map fst (rows out) = [1]"
    by (auto simp: with_note_def)
  note inst = record_fields_are_frame_columns [OF out]
  from inst have 1: "columns out = [''date'', ''merchant'', ''amount'', ''note'', ''price_change'']"
    by simp
  from inst have 2: "length (records out) = length (rows out)"
    by simp
  from inst have 3: "map (map fst) (records out) = map (\<lambda>rec. columns out) (records out)"
    by simp
  from idx obtain r where r: "rows out = [(1, r)]"
    by (cases "rows out") auto
  from inst r have "r ''note'' = (note_rows ! 1) ''note''" "r ''merchant'' = (note_rows ! 1) ''merchant''"
    by simp_all
  with r have 4: "map (\<lambda>ir. snd ir ''note'') (rows out) = [(note_rows ! 1) ''note'']"
    and 5: "map (\<lambda>ir. snd ir ''merchant'') (rows out) = [(note_rows ! 1) ''merchant'']"
    by simp_all
  from out 1 2 3 idx 4 5
  have body: "find_subscription_leeches demo_conv (Table [''date'', ''merchant'', ''amount'', ''note''] note_rows) = Inr out
     \<and> columns out = [''date'', ''merchant'', ''amount'', ''note'', ''price_change'']
     \<and> length (records out) = length (rows out)
     \<and> map (map fst) (records out) = map (\<lambda>rec. columns out) (records out)
     \<and> map fst (rows out) = [1]
     \<and> map (\<lambda>ir. snd ir ''note'') (rows out) = [(note_rows ! 1) ''note'']
     \<and> map (\<lambda>ir. snd ir ''merchant'') (rows out) = [(note_rows ! 1) ''merchant'']"
    by (intro conjI)
  show ?thesis
    by (rule exI [where x = out]) (rule body)
qed



end
